theory Spec2Isabelle
  imports Main "HOL-Library.Sublist" "HOL-Library.Char_ord" "HOL-Library.List_Lexorder"
begin

section \<open>Python dictionaries and strings\<close>

text \<open>
  A Python \<open>dict\<close> keeps its keys in insertion order and holds each key once. It is
  modelled as an association list; \<open>d[k]\<close> reads the first entry for \<open>k\<close>, and
  \<open>d[k] = v\<close> replaces the value in place when \<open>k\<close> is present and appends a new entry
  otherwise. Strings are lists of characters with codes 0..255.
\<close>

type_synonym ('k, 'v) dict = "('k \<times> 'v) list"

definition keys :: "('k, 'v) dict \<Rightarrow> 'k list" where
  "keys d = map fst d"

definition dict_get :: "('k, 'v) dict \<Rightarrow> 'k \<Rightarrow> 'v option" where
  "dict_get d k = map_of d k"

fun dict_set :: "'k \<Rightarrow> 'v \<Rightarrow> ('k, 'v) dict \<Rightarrow> ('k, 'v) dict" where
  "dict_set k v [] = [(k, v)]"
| "dict_set k v (p # ps) = (if fst p = k then (k, v) # ps else p # dict_set k v ps)"

text \<open>\<open>d[k] = f(d[k])\<close> for a key that is present; nothing happens when it is absent.\<close>

fun dict_modify :: "'k \<Rightarrow> ('v \<Rightarrow> 'v) \<Rightarrow> ('k, 'v) dict \<Rightarrow> ('k, 'v) dict" where
  "dict_modify k f [] = []"
| "dict_modify k f (p # ps) =
     (if fst p = k then (k, f (snd p)) # ps else p # dict_modify k f ps)"

text \<open>\<open>sub in s\<close> on strings: contiguous containment.\<close>

definition contains :: "string \<Rightarrow> string \<Rightarrow> bool" where
  "contains sub s = sublist sub s"

text \<open>
  \<open>s.rsplit(sep, 1)\<close> for a one-character separator: the text before the last separator
  and the text after it, or the whole string alone when there is no separator.
\<close>

definition rsplit1 :: "char \<Rightarrow> string \<Rightarrow> string list" where
  "rsplit1 sep s =
     (if sep \<in> set s
      then [rev (tl (dropWhile (\<lambda>c. c \<noteq> sep) (rev s))), rev (takeWhile (\<lambda>c. c \<noteq> sep) (rev s))]
      else [s])"

section \<open>Canonical graph nodes\<close>

record canonical_node =
  name :: string
  node_type :: string
  node_text :: "string option"
  xmi_id :: "string option"
  incoming :: "string list"
  outgoing :: "string list"
  properties :: "(string, string) dict"
  source_file :: "string option"

type_synonym nodes = "(string, canonical_node) dict"

section \<open>Hierarchy inference (\<open>extract_hierarchy.py\<close>)\<close>

text \<open>
  \<open>if parent_id not in nodes[req_id]['incoming']: nodes[req_id]['incoming'].append(parent_id)\<close>
\<close>

definition add_incoming :: "string \<Rightarrow> canonical_node \<Rightarrow> canonical_node" where
  "add_incoming parent_id n =
     (if parent_id \<notin> set (incoming n) then n\<lparr>incoming := incoming n @ [parent_id]\<rparr> else n)"

definition add_outgoing :: "string \<Rightarrow> canonical_node \<Rightarrow> canonical_node" where
  "add_outgoing req_id n =
     (if req_id \<notin> set (outgoing n) then n\<lparr>outgoing := outgoing n @ [req_id]\<rparr> else n)"

text \<open>
  One iteration of the loop over \<open>nodes.keys()\<close>. The state is the nodes dictionary,
  mutated in place by the source, and the counter \<open>relationships_added\<close>. The id comes
  from the keys of the dictionary, so \<open>nodes[req_id]\<close> is present; every node carries
  its two edge lists, as the exported graph document does.
\<close>

definition hierarchy_step :: "string \<Rightarrow> nodes \<times> nat \<Rightarrow> nodes \<times> nat" where
  "hierarchy_step req_id st =
     (let (nodes, relationships_added) = st in
      if CHR ''.'' \<notin> set req_id then st
      else
        (let parts = rsplit1 (CHR ''.'') req_id in
         if length parts = 2 then
           (let parent_id = parts ! 0 in
            if parent_id \<in> set (keys nodes) then
              (case dict_get nodes req_id of
                 None \<Rightarrow> st
               | Some child \<Rightarrow>
                   (let added = (if parent_id \<notin> set (incoming child)
                                 then relationships_added + 1 else relationships_added);
                        nodes1 = dict_modify req_id (add_incoming parent_id) nodes;
                        nodes2 = dict_modify parent_id (add_outgoing req_id) nodes1
                    in (nodes2, added)))
            else st)
         else st))"

definition extract_hierarchy_from_ids :: "nodes \<Rightarrow> nodes \<times> nat" where
  "extract_hierarchy_from_ids nodes = fold hierarchy_step (keys nodes) (nodes, 0)"

definition infer_hierarchy :: "nodes \<Rightarrow> nodes" where
  "infer_hierarchy nodes = fst (extract_hierarchy_from_ids nodes)"

text \<open>Reading \<open>nodes[k]['incoming']\<close> and \<open>nodes[k]['outgoing']\<close>; empty for an absent id.\<close>

definition incoming_of :: "nodes \<Rightarrow> string \<Rightarrow> string list" where
  "incoming_of ns k = (case dict_get ns k of None \<Rightarrow> [] | Some n \<Rightarrow> incoming n)"

definition outgoing_of :: "nodes \<Rightarrow> string \<Rightarrow> string list" where
  "outgoing_of ns k = (case dict_get ns k of None \<Rightarrow> [] | Some n \<Rightarrow> outgoing n)"

text \<open>The candidate parent id: \<open>req_id.rsplit('.', 1)[0]\<close>.\<close>

definition parent_of :: "string \<Rightarrow> string" where
  "parent_of req_id = rsplit1 (CHR ''.'') req_id ! 0"

text \<open>The effect of one loop iteration on the nodes alone.\<close>

definition step_nodes :: "string \<Rightarrow> nodes \<Rightarrow> nodes" where
  "step_nodes k ns =
     (if CHR ''.'' \<in> set k \<and> parent_of k \<in> set (keys ns) \<and> k \<in> set (keys ns)
      then dict_modify (parent_of k) (add_outgoing k) (dict_modify k (add_incoming (parent_of k)) ns)
      else ns)"

text \<open>An id is settled when its iteration has nothing left to add.\<close>

definition settled :: "string \<Rightarrow> nodes \<Rightarrow> bool" where
  "settled k ns \<longleftrightarrow>
     (CHR ''.'' \<in> set k \<and> parent_of k \<in> set (keys ns) \<and> k \<in> set (keys ns) \<longrightarrow>
        parent_of k \<in> set (incoming_of ns k) \<and> k \<in> set (outgoing_of ns (parent_of k)))"

text \<open>The three ids of the worked example, with empty edge lists.\<close>

definition example_node :: canonical_node where
  "example_node = \<lparr>name = ''n'', node_type = ''Requirement_General'', node_text = None,
     xmi_id = None, incoming = [], outgoing = [], properties = [], source_file = None\<rparr>"

definition example_nodes :: nodes where
  "example_nodes = [(''A'', example_node), (''A.1'', example_node), (''A.1.2'', example_node)]"

section \<open>JSON values and their canonical serialisation\<close>

text \<open>
  A value read by \<open>json.load\<close>. An object is a Python dictionary: its entries in insertion
  order, each key once. A float is carried as the text \<open>json.dumps\<close> writes for it, the
  \<open>repr\<close> of a finite float and \<open>NaN\<close>, \<open>Infinity\<close> or \<open>-Infinity\<close> otherwise; no
  arithmetic is done on it.
\<close>

datatype json =
    JNull
  | JBool bool
  | JInt int
  | JFloat string
  | JStr string
  | JArr "json list"
  | JObj "(string \<times> json) list"

text \<open>Decimal digits of a natural number and \<open>str\<close> of a Python integer.\<close>

fun digits10 :: "nat \<Rightarrow> string" where
  "digits10 n =
     (if n < 10 then [''0123456789'' ! n]
      else digits10 (n div 10) @ [''0123456789'' ! (n mod 10)])"

definition str_int :: "int \<Rightarrow> string" where
  "str_int i = (if i < 0 then CHR ''-'' # digits10 (nat (- i)) else digits10 (nat i))"

text \<open>
  The escaping of \<open>json.dumps\<close> with \<open>ensure_ascii\<close> left at its default: the quote, the
  backslash and the five short escapes, \<open>\uXXXX\<close> for every other character outside
  the printable ASCII range.
\<close>

definition hex_digit :: "nat \<Rightarrow> char" where
  "hex_digit n = ''0123456789abcdef'' ! (n mod 16)"

definition escape_char :: "char \<Rightarrow> string" where
  "escape_char c =
     (let n = (of_char c :: nat) in
      if c = CHR ''\"'' then [CHR 0x5C, CHR ''\"'']
      else if c = CHR 0x5C then [CHR 0x5C, CHR 0x5C]
      else if c = CHR 0x0A then [CHR 0x5C, CHR ''n'']
      else if c = CHR 0x0D then [CHR 0x5C, CHR ''r'']
      else if c = CHR 0x09 then [CHR 0x5C, CHR ''t'']
      else if c = CHR 0x08 then [CHR 0x5C, CHR ''b'']
      else if c = CHR 0x0C then [CHR 0x5C, CHR ''f'']
      else if n < 0x20 \<or> 0x7E < n
        then [CHR 0x5C, CHR ''u'', CHR ''0'', CHR ''0'', hex_digit (n div 16), hex_digit n]
      else [c])"

definition encode_str :: "string \<Rightarrow> string" where
  "encode_str s = [CHR ''\"''] @ concat (map escape_char s) @ [CHR ''\"'']"

text \<open>\<open>sep.join(parts)\<close>.\<close>

fun join :: "string \<Rightarrow> string list \<Rightarrow> string" where
  "join sep [] = []"
| "join sep [x] = x"
| "join sep (x # y # ys) = x @ sep @ join sep (y # ys)"

text \<open>
  \<open>json.dumps(value, sort_keys=True)\<close>: the entries of every object, at every depth, are
  written in the order of their keys; items are separated by a comma and a space, a key
  from its value by a colon and a space.
\<close>

fun dumps :: "json \<Rightarrow> string" where
  "dumps JNull = ''null''"
| "dumps (JBool b) = (if b then ''true'' else ''false'')"
| "dumps (JInt i) = str_int i"
| "dumps (JFloat r) = r"
| "dumps (JStr s) = encode_str s"
| "dumps (JArr xs) = ''['' @ join '', '' (map dumps xs) @ '']''"
| "dumps (JObj kvs) =
     ''{'' @ join '', '' (map (\<lambda>(k, v). encode_str k @ '': '' @ dumps v) (sort_key fst kvs)) @ ''}''"

section \<open>Version records (\<open>versioning/schema.py\<close>, \<open>enums.py\<close>)\<close>

datatype ArtifactType = REQUIREMENT | MODEL

datatype Tool = CAMEO | SIMULINK

fun artifact_type_value :: "ArtifactType \<Rightarrow> string" where
  "artifact_type_value REQUIREMENT = ''requirement''"
| "artifact_type_value MODEL = ''model''"

fun tool_value :: "Tool \<Rightarrow> string" where
  "tool_value CAMEO = ''cameo''"
| "tool_value SIMULINK = ''simulink''"

record ArtifactVersion =
  artifact_id :: string
  version_id :: string
  artifact_type :: string
  tool :: string
  timestamp :: string
  parent_version_id :: "string option"
  snapshot :: "string option"

text \<open>
  \<open>compute_artifact_hash\<close>. The digest function \<open>hashlib.sha256(...).hexdigest()\<close> is
  the parameter \<open>sha\<close>. The serialisation is plain ASCII, so its UTF-8 encoding is the
  same sequence of bytes.
\<close>

definition compute_artifact_hash :: "(string \<Rightarrow> string) \<Rightarrow> json \<Rightarrow> string" where
  "compute_artifact_hash sha artifact_data = sha (dumps artifact_data)"

text \<open>
  \<open>create_artifact_version\<close>. The reading of the clock, \<open>datetime.utcnow().isoformat()\<close>,
  is the parameter \<open>now\<close>.
\<close>

definition create_artifact_version ::
  "(string \<Rightarrow> string) \<Rightarrow> string \<Rightarrow> string \<Rightarrow> json \<Rightarrow> ArtifactType \<Rightarrow> Tool \<Rightarrow> string option
     \<Rightarrow> ArtifactVersion" where
  "create_artifact_version sha now aid artifact_data atype the_tool parent =
     \<lparr>artifact_id = aid,
      version_id = compute_artifact_hash sha artifact_data,
      artifact_type = artifact_type_value atype,
      tool = tool_value the_tool,
      timestamp = now,
      parent_version_id = parent,
      snapshot = Some (dumps artifact_data)\<rparr>"

section \<open>The version store (\<open>version_storage.py\<close>)\<close>

text \<open>
  What a version file on disk holds: a dictionary of records written by an earlier
  \<open>save\<close>, or bytes that \<open>json.load\<close> or \<open>ArtifactVersion.from_dict\<close> reject. A path
  with no file is \<open>None\<close>.
\<close>

datatype stored = Versions "(string, ArtifactVersion) dict" | Corrupt

datatype py_error = StoreError

type_synonym versions = "(string, ArtifactVersion) dict"

text \<open>\<open>VersionStorage.load\<close>: an absent file is an empty history; nothing is caught.\<close>

fun load :: "stored option \<Rightarrow> py_error + versions" where
  "load None = Inr []"
| "load (Some Corrupt) = Inl StoreError"
| "load (Some (Versions d)) = Inr d"

text \<open>\<open>VersionStorage.save\<close>: the file is opened for writing and rewritten whole.\<close>

definition save :: "versions \<Rightarrow> stored option" where
  "save vs = Some (Versions vs)"

section \<open>The Cameo tracker (\<open>versioning/cameo_tracker.py\<close>)\<close>

text \<open>
  The body of the loop over \<open>nodes.items()\<close>. The state is \<open>current_versions\<close>,
  \<open>new_count\<close> and \<open>changed_count\<close>; \<open>clock\<close> gives the time at which the artifact
  is processed.
\<close>

definition cameo_step ::
  "(string \<Rightarrow> string) \<Rightarrow> (string \<Rightarrow> string) \<Rightarrow> versions \<Rightarrow> string \<times> json
     \<Rightarrow> versions \<times> nat \<times> nat \<Rightarrow> versions \<times> nat \<times> nat" where
  "cameo_step sha clock previous_versions item st =
     (let (aid, artifact_data) = item;
          (current_versions, new_count, changed_count) = st;
          current_hash = compute_artifact_hash sha artifact_data
      in case dict_get previous_versions aid of
           Some prev \<Rightarrow>
             if version_id prev = current_hash
             then (dict_set aid prev current_versions, new_count, changed_count)
             else (dict_set aid
                     (create_artifact_version sha (clock aid) aid artifact_data
                        REQUIREMENT CAMEO (Some (version_id prev))) current_versions,
                   new_count, changed_count + 1)
         | None \<Rightarrow>
             (dict_set aid
                (create_artifact_version sha (clock aid) aid artifact_data REQUIREMENT CAMEO None)
                current_versions,
              new_count + 1, changed_count))"

definition cameo_loop ::
  "(string \<Rightarrow> string) \<Rightarrow> (string \<Rightarrow> string) \<Rightarrow> versions \<Rightarrow> (string, json) dict
     \<Rightarrow> versions \<times> nat \<times> nat" where
  "cameo_loop sha clock previous_versions nodes =
     fold (cameo_step sha clock previous_versions) nodes ([], 0, 0)"

text \<open>
  \<open>track_cameo_requirements\<close>. \<open>req_file\<close> is the nodes dictionary of the graph document,
  \<open>None\<close> when the file does not exist; \<open>version_file\<close> is the state of the store on disk.
  The result is the store on disk afterwards and the returned triple, or the exception
  that left the function and the store on disk as it was then.
\<close>

definition track_cameo_requirements ::
  "(string \<Rightarrow> string) \<Rightarrow> (string \<Rightarrow> string) \<Rightarrow> (string, json) dict option \<Rightarrow> stored option
     \<Rightarrow> (py_error \<times> stored option) + (stored option \<times> versions \<times> nat \<times> nat)" where
  "track_cameo_requirements sha clock req_file version_file =
     (case req_file of
        None \<Rightarrow> Inr (version_file, [], 0, 0)
      | Some nodes \<Rightarrow>
          (case load version_file of
             Inl e \<Rightarrow> Inl (e, version_file)
           | Inr previous_versions \<Rightarrow>
               (let (current_versions, new_count, changed_count) =
                      cameo_loop sha clock previous_versions nodes
                in Inr (save current_versions, current_versions, new_count, changed_count))))"

section \<open>The Simulink tracker (\<open>versioning/simulink_tracker.py\<close>)\<close>

text \<open>
  The body of the loop over \<open>blocks.items()\<close>. The state is \<open>current_versions\<close>,
  \<open>all_versions\<close>, \<open>total_new\<close> and \<open>total_changed\<close>.
\<close>

definition simulink_step ::
  "(string \<Rightarrow> string) \<Rightarrow> (string \<Rightarrow> string) \<Rightarrow> versions \<Rightarrow> string \<times> json
     \<Rightarrow> versions \<times> versions \<times> nat \<times> nat \<Rightarrow> versions \<times> versions \<times> nat \<times> nat" where
  "simulink_step sha clock previous_versions item st =
     (let (block_id, block_data) = item;
          (current_versions, all_versions, total_new, total_changed) = st;
          current_hash = compute_artifact_hash sha block_data;
          prev_version = dict_get previous_versions block_id;
          parent_id = map_option version_id prev_version
      in if prev_version \<noteq> None \<and> map_option version_id prev_version = Some current_hash
         then (dict_set block_id (the prev_version) current_versions,
               all_versions, total_new, total_changed)
         else
           (let version = create_artifact_version sha (clock block_id) block_id block_data
                            MODEL SIMULINK parent_id
            in (dict_set block_id version current_versions,
                dict_set block_id version all_versions,
                (if prev_version \<noteq> None then total_new else total_new + 1),
                (if prev_version \<noteq> None then total_changed + 1 else total_changed))))"

text \<open>
  One iteration of the loop over the connectivity files, for a model with its nodes
  dictionary. \<open>stores\<close> maps a model name to the state of its version file. When the load
  raises, the result is the exception and the stores as they are on disk at that moment.
\<close>

definition simulink_model ::
  "(string \<Rightarrow> string) \<Rightarrow> (string \<Rightarrow> string) \<Rightarrow> string \<times> (string, json) dict
     \<Rightarrow> (string \<Rightarrow> stored option) \<times> versions \<times> nat \<times> nat
     \<Rightarrow> (py_error \<times> (string \<Rightarrow> stored option))
         + ((string \<Rightarrow> stored option) \<times> versions \<times> nat \<times> nat)" where
  "simulink_model sha clock file st =
     (let (model_name, blocks) = file;
          (stores, all_versions, total_new, total_changed) = st
      in if blocks = [] then Inr st
         else
           (case load (stores model_name) of
              Inl e \<Rightarrow> Inl (e, stores)
            | Inr previous_versions \<Rightarrow>
                (let (current_versions, all_versions', total_new', total_changed') =
                       fold (simulink_step sha clock previous_versions) blocks
                         ([], all_versions, total_new, total_changed)
                 in Inr (stores(model_name := save current_versions),
                         all_versions', total_new', total_changed'))))"

text \<open>
  The loop over the files; the \<open>i\<close>-th file is processed under the clock \<open>clock i\<close>. An
  exception ends the loop, with the stores that the earlier iterations have saved.
\<close>

fun simulink_files ::
  "(string \<Rightarrow> string) \<Rightarrow> (nat \<Rightarrow> string \<Rightarrow> string) \<Rightarrow> nat \<Rightarrow> (string \<times> (string, json) dict) list
     \<Rightarrow> (string \<Rightarrow> stored option) \<times> versions \<times> nat \<times> nat
     \<Rightarrow> (py_error \<times> (string \<Rightarrow> stored option))
         + ((string \<Rightarrow> stored option) \<times> versions \<times> nat \<times> nat)" where
  "simulink_files sha clock i [] st = Inr st"
| "simulink_files sha clock i (file # later) st =
     (case simulink_model sha (clock i) file st of
        Inl failure \<Rightarrow> Inl failure
      | Inr st' \<Rightarrow> simulink_files sha clock (Suc i) later st')"

text \<open>
  \<open>track_simulink_blocks\<close>. \<open>base_dir\<close> is the list of connectivity files found, each
  with its model name and nodes dictionary, \<open>None\<close> when the directory does not exist.
\<close>

definition track_simulink_blocks ::
  "(string \<Rightarrow> string) \<Rightarrow> (nat \<Rightarrow> string \<Rightarrow> string) \<Rightarrow> (string \<times> (string, json) dict) list option
     \<Rightarrow> (string \<Rightarrow> stored option)
     \<Rightarrow> (py_error \<times> (string \<Rightarrow> stored option))
         + ((string \<Rightarrow> stored option) \<times> versions \<times> nat \<times> nat)" where
  "track_simulink_blocks sha clock base_dir stores =
     (case base_dir of
        None \<Rightarrow> Inr (stores, [], 0, 0)
      | Some connectivity_files \<Rightarrow>
          if connectivity_files = [] then Inr (stores, [], 0, 0)
          else simulink_files sha clock 0 connectivity_files (stores, [], 0, 0))"

section \<open>What an iteration of a tracker leaves behind\<close>

text \<open>
  The record held for an artifact after its iteration, and the three cases of an
  iteration: the artifact has no stored version, its stored version has another hash,
  or its stored version has the hash of the current snapshot.
\<close>

definition tracked ::
  "(string \<Rightarrow> string) \<Rightarrow> string \<Rightarrow> ArtifactType \<Rightarrow> Tool \<Rightarrow> versions \<Rightarrow> string \<Rightarrow> json
     \<Rightarrow> ArtifactVersion" where
  "tracked sha now atype the_tool previous_versions aid artifact_data =
     (case dict_get previous_versions aid of
        None \<Rightarrow> create_artifact_version sha now aid artifact_data atype the_tool None
      | Some prev \<Rightarrow>
          if version_id prev = compute_artifact_hash sha artifact_data then prev
          else create_artifact_version sha now aid artifact_data atype the_tool
                 (Some (version_id prev)))"

definition is_new :: "versions \<Rightarrow> string \<times> json \<Rightarrow> bool" where
  "is_new previous_versions item = (dict_get previous_versions (fst item) = None)"

definition is_changed :: "(string \<Rightarrow> string) \<Rightarrow> versions \<Rightarrow> string \<times> json \<Rightarrow> bool" where
  "is_changed sha previous_versions item =
     (case dict_get previous_versions (fst item) of
        None \<Rightarrow> False
      | Some prev \<Rightarrow> version_id prev \<noteq> compute_artifact_hash sha (snd item))"

definition is_unchanged :: "(string \<Rightarrow> string) \<Rightarrow> versions \<Rightarrow> string \<times> json \<Rightarrow> bool" where
  "is_unchanged sha previous_versions item =
     (case dict_get previous_versions (fst item) of
        None \<Rightarrow> False
      | Some prev \<Rightarrow> version_id prev = compute_artifact_hash sha (snd item))"

text \<open>The records held for the artifacts of a graph after its iterations.\<close>

definition tracked_versions ::
  "(string \<Rightarrow> string) \<Rightarrow> (string \<Rightarrow> string) \<Rightarrow> ArtifactType \<Rightarrow> Tool \<Rightarrow> versions
     \<Rightarrow> (string, json) dict \<Rightarrow> versions" where
  "tracked_versions sha clock atype the_tool previous_versions nodes =
     map (\<lambda>item. (fst item,
            tracked sha (clock (fst item)) atype the_tool previous_versions (fst item) (snd item)))
       nodes"

text \<open>
  The three cases in the words of the specification, for the records \<open>cur\<close> held after a
  run against the stored versions \<open>prev\<close>: an artifact without a stored version has a
  record without a parent; an artifact stored under another hash has a record whose parent
  is the id of the stored version; an artifact stored under the hash of its snapshot keeps
  the stored record. A new record carries the artifact id, the hash of the snapshot as its
  version id, the type, the tool, the time and the serialised snapshot.
\<close>

definition records_follow ::
  "(string \<Rightarrow> string) \<Rightarrow> (string \<Rightarrow> string) \<Rightarrow> string \<Rightarrow> string \<Rightarrow> versions
     \<Rightarrow> (string, json) dict \<Rightarrow> versions \<Rightarrow> bool" where
  "records_follow sha clock type_text tool_text prev nodes cur \<longleftrightarrow>
     (\<forall>item \<in> set nodes.
        case dict_get prev (fst item) of
          None \<Rightarrow>
            dict_get cur (fst item) =
              Some \<lparr>artifact_id = fst item,
                    version_id = compute_artifact_hash sha (snd item),
                    artifact_type = type_text, tool = tool_text,
                    timestamp = clock (fst item),
                    parent_version_id = None,
                    snapshot = Some (dumps (snd item))\<rparr>
        | Some p \<Rightarrow>
            if version_id p = compute_artifact_hash sha (snd item)
            then dict_get cur (fst item) = Some p
            else dict_get cur (fst item) =
              Some \<lparr>artifact_id = fst item,
                    version_id = compute_artifact_hash sha (snd item),
                    artifact_type = type_text, tool = tool_text,
                    timestamp = clock (fst item),
                    parent_version_id = Some (version_id p),
                    snapshot = Some (dumps (snd item))\<rparr>)"

text \<open>
  What \<open>all_versions\<close> holds after one model for the artifacts of that model: the record
  of every artifact that got a new one, and what it held before for an artifact that is
  carried over.
\<close>

definition emitted_follow ::
  "(string \<Rightarrow> string) \<Rightarrow> versions \<Rightarrow> (string, json) dict \<Rightarrow> versions \<Rightarrow> versions \<Rightarrow> versions \<Rightarrow> bool" where
  "emitted_follow sha prev nodes cur before emitted \<longleftrightarrow>
     (\<forall>item \<in> set nodes.
        dict_get emitted (fst item) =
          (if is_unchanged sha prev item then dict_get before (fst item)
           else dict_get cur (fst item)))"

text \<open>The history that a store on disk loads to; empty when the load raises.\<close>

definition loaded :: "stored option \<Rightarrow> versions" where
  "loaded s = (case load s of Inl e \<Rightarrow> [] | Inr d \<Rightarrow> d)"

text \<open>The artifacts of all the files that are new, or changed, against the stores.\<close>

definition count_new :: "(string \<Rightarrow> stored option) \<Rightarrow> (string \<times> (string, json) dict) list \<Rightarrow> nat" where
  "count_new stores fs =
     sum_list (map (\<lambda>f. length (filter (is_new (loaded (stores (fst f)))) (snd f))) fs)"

definition count_changed ::
  "(string \<Rightarrow> string) \<Rightarrow> (string \<Rightarrow> stored option) \<Rightarrow> (string \<times> (string, json) dict) list \<Rightarrow> nat" where
  "count_changed sha stores fs =
     sum_list (map (\<lambda>f. length (filter (is_changed sha (loaded (stores (fst f)))) (snd f))) fs)"

text \<open>
  A store is up to date with a graph when it holds the ids of the graph, each under the
  hash of its snapshot.
\<close>

definition up_to_date :: "(string \<Rightarrow> string) \<Rightarrow> (string, json) dict \<Rightarrow> versions \<Rightarrow> bool" where
  "up_to_date sha nodes cur \<longleftrightarrow>
     keys cur = keys nodes \<and> (\<forall>item \<in> set nodes. is_unchanged sha cur item)"

text \<open>
  The nodes dictionary of the last connectivity file with the given model name that is not
  empty.
\<close>

definition last_graph ::
  "string \<Rightarrow> (string \<times> (string, json) dict) list \<Rightarrow> (string, json) dict option" where
  "last_graph m fs =
     (case filter (\<lambda>f. fst f = m \<and> snd f \<noteq> []) fs of
        [] \<Rightarrow> None
      | g # gs \<Rightarrow> Some (snd (last (g # gs))))"

text \<open>
  A run over three artifacts: R1 has no stored version, R2 is stored under the hash of
  its present snapshot, R3 is stored under another hash, and the store also holds R9,
  which the graph does not. The digest is a stand-in that returns the serialisation
  itself, so the hash of a snapshot is its text.
\<close>

definition snapshot_text :: "string \<Rightarrow> string" where
  "snapshot_text nm =
     ''{'' @ [CHR 0x22] @ ''name'' @ [CHR 0x22] @ '': '' @ [CHR 0x22] @ nm @ [CHR 0x22] @ ''}''"

definition example_graph :: "(string, json) dict" where
  "example_graph =
     [(''R1'', JObj [(''name'', JStr ''a'')]),
      (''R2'', JObj [(''name'', JStr ''b'')]),
      (''R3'', JObj [(''name'', JStr ''c'')])]"

definition stored_R2 :: ArtifactVersion where
  "stored_R2 = \<lparr>artifact_id = ''R2'', version_id = snapshot_text ''b'',
     artifact_type = ''requirement'', tool = ''cameo'', timestamp = ''t0'',
     parent_version_id = None, snapshot = Some (snapshot_text ''b'')\<rparr>"

definition example_store :: versions where
  "example_store =
     [(''R2'', stored_R2),
      (''R3'', \<lparr>artifact_id = ''R3'', version_id = ''old'',
         artifact_type = ''requirement'', tool = ''cameo'', timestamp = ''t0'',
         parent_version_id = None, snapshot = Some ''old''\<rparr>),
      (''R9'', \<lparr>artifact_id = ''R9'', version_id = ''gone'',
         artifact_type = ''requirement'', tool = ''cameo'', timestamp = ''t0'',
         parent_version_id = None, snapshot = Some ''gone''\<rparr>)]"

text \<open>The stand-in digest, the clocks and the stores used with the example run.\<close>

definition example_sha :: "string \<Rightarrow> string" where
  "example_sha s = s"

definition clock1 :: "string \<Rightarrow> string" where
  "clock1 aid = ''t1''"

definition clock2 :: "string \<Rightarrow> string" where
  "clock2 aid = ''t2''"

definition clocks :: "nat \<Rightarrow> string \<Rightarrow> string" where
  "clocks i aid = ''t1''"

definition clocks2 :: "nat \<Rightarrow> string \<Rightarrow> string" where
  "clocks2 i aid = ''t2''"

definition example_stores :: "string \<Rightarrow> stored option" where
  "example_stores model_name = Some (Versions example_store)"

definition corrupt_stores :: "string \<Rightarrow> stored option" where
  "corrupt_stores model_name = Some Corrupt"

definition no_stores :: "string \<Rightarrow> stored option" where
  "no_stores model_name = None"

text \<open>The records expected after the run of each tracker over the example.\<close>

definition new_record :: "string \<Rightarrow> string \<Rightarrow> string \<Rightarrow> string \<Rightarrow> string \<Rightarrow> string option \<Rightarrow> ArtifactVersion" where
  "new_record type_text tool_text aid nm now parent =
     \<lparr>artifact_id = aid, version_id = snapshot_text nm, artifact_type = type_text,
      tool = tool_text, timestamp = now, parent_version_id = parent,
      snapshot = Some (snapshot_text nm)\<rparr>"

definition expected_current :: versions where
  "expected_current =
     [(''R1'', new_record ''requirement'' ''cameo'' ''R1'' ''a'' ''t1'' None),
      (''R2'', stored_R2),
      (''R3'', new_record ''requirement'' ''cameo'' ''R3'' ''c'' ''t1'' (Some ''old''))]"

definition expected_blocks :: versions where
  "expected_blocks =
     [(''R1'', new_record ''model'' ''simulink'' ''R1'' ''a'' ''t1'' None),
      (''R2'', stored_R2),
      (''R3'', new_record ''model'' ''simulink'' ''R3'' ''c'' ''t1'' (Some ''old''))]"

definition expected_emitted :: versions where
  "expected_emitted =
     [(''R1'', new_record ''model'' ''simulink'' ''R1'' ''a'' ''t1'' None),
      (''R3'', new_record ''model'' ''simulink'' ''R3'' ''c'' ''t1'' (Some ''old''))]"

definition all_new_blocks :: versions where
  "all_new_blocks =
     [(''R1'', new_record ''model'' ''simulink'' ''R1'' ''a'' ''t1'' None),
      (''R2'', new_record ''model'' ''simulink'' ''R2'' ''b'' ''t1'' None),
      (''R3'', new_record ''model'' ''simulink'' ''R3'' ''c'' ''t1'' None)]"

definition all_new_requirements :: versions where
  "all_new_requirements =
     [(''R1'', new_record ''requirement'' ''cameo'' ''R1'' ''a'' ''t1'' None),
      (''R2'', new_record ''requirement'' ''cameo'' ''R2'' ''b'' ''t1'' None),
      (''R3'', new_record ''requirement'' ''cameo'' ''R3'' ''c'' ''t1'' None)]"

text \<open>
  Two connectivity files found under one model name \<open>M\<close>, the first with the block X, the
  second with the block Y; both write the version file of \<open>M\<close>.
\<close>

definition shared_files :: "(string \<times> (string, json) dict) list" where
  "shared_files =
     [(''M'', [(''X'', JObj [(''name'', JStr ''x'')])]),
      (''M'', [(''Y'', JObj [(''name'', JStr ''y'')])])]"

definition shared_emitted :: versions where
  "shared_emitted =
     [(''X'', new_record ''model'' ''simulink'' ''X'' ''x'' ''t1'' None),
      (''Y'', new_record ''model'' ''simulink'' ''Y'' ''y'' ''t1'' None)]"

definition shared_store :: versions where
  "shared_store = [(''Y'', new_record ''model'' ''simulink'' ''Y'' ''y'' ''t1'' None)]"

section \<open>Snapshots that are equal as dictionaries\<close>

text \<open>Every object of a value holds each key once, as a Python dictionary does.\<close>

fun wf_json :: "json \<Rightarrow> bool" where
  "wf_json (JArr xs) = (\<forall>x \<in> set xs. wf_json x)"
| "wf_json (JObj kvs) = (distinct (map fst kvs) \<and> (\<forall>kv \<in> set kvs. wf_json (snd kv)))"
| "wf_json _ = True"

text \<open>
  Equality of two values as Python compares dictionaries and lists: two objects are equal
  when they have the same keys and equal values under each key, whatever the order of
  insertion; two arrays when they are equal item by item; two atoms when they are the
  same atom.
\<close>

function (sequential) same_content :: "json \<Rightarrow> json \<Rightarrow> bool" where
  "same_content (JObj xs) (JObj ys) =
     (set (map fst xs) = set (map fst ys) \<and>
      (\<forall>x \<in> set xs. \<forall>y \<in> set ys. fst x = fst y \<longrightarrow> same_content (snd x) (snd y)))"
| "same_content (JArr xs) (JArr ys) =
     (length xs = length ys \<and> (\<forall>(x, y) \<in> set (zip xs ys). same_content x y))"
| "same_content a b = (a = b \<and> (case a of JArr _ \<Rightarrow> False | JObj _ \<Rightarrow> False | _ \<Rightarrow> True))"
  by pat_completeness auto

termination
proof (relation "measure (\<lambda>(a, b). size a)")
  show "wf (measure (\<lambda>(a, b). size a))" by simp
next
  fix xs ys :: "(string \<times> json) list" and x y
  assume "x \<in> set xs"
  then have "size (snd x) < Suc (size_list (size_prod (\<lambda>_. 0) size) xs)"
    by (induction xs) (auto simp: less_Suc_eq_le)
  then show "((snd x, snd y), (JObj xs, JObj ys)) \<in> measure (\<lambda>(a, b). size a)"
    by simp
next
  fix xs ys :: "json list" and z x y
  assume "z \<in> set (zip xs ys)" and "(x, y) = z"
  then have "x \<in> set xs" by (auto dest: set_zip_leftD)
  then have "size x < Suc (size_list size xs)"
    by (induction xs) (auto simp: less_Suc_eq_le)
  then show "((x, y), (JArr xs, JArr ys)) \<in> measure (\<lambda>(a, b). size a)"
    by simp
qed

text \<open>One snapshot written with its keys in two orders, at two depths.\<close>

definition snapshot_a :: json where
  "snapshot_a =
     JObj [(''name'', JStr ''Brake''), (''incoming'', JArr [JStr ''R1'']),
           (''properties'', JObj [(''owner'', JStr ''x''), (''kind'', JStr ''y'')])]"

definition snapshot_b :: json where
  "snapshot_b =
     JObj [(''properties'', JObj [(''kind'', JStr ''y''), (''owner'', JStr ''x'')]),
           (''incoming'', JArr [JStr ''R1'']), (''name'', JStr ''Brake'')]"

section \<open>Markup trees (\<open>xml.etree.ElementTree\<close>)\<close>

text \<open>
  An element has a tag, its attributes in document order, an optional text and its child
  elements. A namespaced tag or attribute name carries the namespace in braces in front
  of the local name, as the parser delivers it.
\<close>

datatype xml = Element (tag: string) (attrib: "(string, string) dict") (etext: "string option")
  (children: "xml list")

text \<open>\<open>elem.get(key)\<close> and \<open>elem.get(key, default)\<close>.\<close>

definition get_attr :: "xml \<Rightarrow> string \<Rightarrow> string option" where
  "get_attr elem k = dict_get (attrib elem) k"

definition get_or :: "xml \<Rightarrow> string \<Rightarrow> string \<Rightarrow> string" where
  "get_or elem k dflt = (case get_attr elem k of None \<Rightarrow> dflt | Some v \<Rightarrow> v)"

definition get_or_opt :: "xml \<Rightarrow> string \<Rightarrow> string option \<Rightarrow> string option" where
  "get_or_opt elem k dflt = (case get_attr elem k of None \<Rightarrow> dflt | Some v \<Rightarrow> Some v)"

text \<open>\<open>root.iter()\<close>: the element and all its descendants, in document order.\<close>

fun iter :: "xml \<Rightarrow> xml list" where
  "iter (Element t a x cs) = Element t a x cs # concat (map iter cs)"

text \<open>The truth value of an optional string, and \<open>a or b\<close> on optional strings.\<close>

fun truthy :: "string option \<Rightarrow> bool" where
  "truthy None = False"
| "truthy (Some s) = (s \<noteq> [])"

definition py_or :: "string option \<Rightarrow> string option \<Rightarrow> string option" where
  "py_or a b = (if truthy a then a else b)"

definition XMI :: string where
  "XMI = ''{http://www.omg.org/spec/XMI/20131001}''"

definition UML :: string where
  "UML = ''{http://www.omg.org/spec/UML/20131001}''"

section \<open>Python string predicates on characters 0..255\<close>

text \<open>\<open>str.isspace\<close> on one character, and \<open>str.strip()\<close>.\<close>

definition is_space :: "char \<Rightarrow> bool" where
  "is_space c =
     (let n = (of_char c :: nat) in
      (9 \<le> n \<and> n \<le> 13) \<or> (28 \<le> n \<and> n \<le> 32) \<or> n = 133 \<or> n = 160)"

definition strip :: "string \<Rightarrow> string" where
  "strip s = rev (dropWhile is_space (rev (dropWhile is_space s)))"

text \<open>
  \<open>str.isdigit\<close>: true for a non-empty string of digit characters; the digit characters
  below 256 are 0 to 9 and the superscripts two, three and one.
\<close>

definition is_digit_char :: "char \<Rightarrow> bool" where
  "is_digit_char c =
     (let n = (of_char c :: nat) in (48 \<le> n \<and> n \<le> 57) \<or> n = 178 \<or> n = 179 \<or> n = 185)"

definition isdigit :: "string \<Rightarrow> bool" where
  "isdigit s = (s \<noteq> [] \<and> list_all is_digit_char s)"

text \<open>\<open>s.replace(' ', '')\<close>.\<close>

definition remove_spaces :: "string \<Rightarrow> string" where
  "remove_spaces s = filter (\<lambda>c. c \<noteq> CHR '' '') s"

text \<open>\<open>str.lower\<close>: the letters A to Z and the accented capitals have a lower case.\<close>

definition lower_char :: "char \<Rightarrow> char" where
  "lower_char c =
     (let n = (of_char c :: nat) in
      if (65 \<le> n \<and> n \<le> 90) \<or> (192 \<le> n \<and> n \<le> 222 \<and> n \<noteq> 215) then char_of (n + 32) else c)"

definition lower :: "string \<Rightarrow> string" where
  "lower s = map lower_char s"

section \<open>The Cameo analyzer (\<open>cameo_integration/cameo_analyzer.py\<close>)\<close>

text \<open>
  An entry of \<open>self.elements\<close>: a dictionary with at most the keys \<open>name\<close>, \<open>type\<close>,
  \<open>element\<close>, \<open>source_file\<close>, \<open>stereotype_id\<close> and \<open>stereotype_text\<close>.
\<close>

record elem_data =
  ed_name :: "string option"
  ed_type :: "string option"
  ed_element :: "xml option"
  ed_source_file :: "string option"
  ed_stereotype_id :: "string option"
  ed_stereotype_text :: "string option"

definition empty_elem_data :: elem_data where
  "empty_elem_data = \<lparr>ed_name = None, ed_type = None, ed_element = None,
     ed_source_file = None, ed_stereotype_id = None, ed_stereotype_text = None\<rparr>"

text \<open>
  A requirement. Its identity and its name are modelled as the source computes them; the
  other fields (\<open>req_id\<close>, \<open>text\<close>, \<open>req_type\<close>, \<open>owner_id\<close>, \<open>properties\<close>,
  \<open>source_file\<close> and the relationship lists) are computed from the element and its entry
  without touching the name, and are carried together as \<open>r_details\<close>.
\<close>

record 'd Requirement =
  r_xmi_id :: string
  r_name :: string
  r_details :: 'd

record 'd analyzer =
  requirements :: "(string, 'd Requirement) dict"
  elements :: "(string, elem_data) dict"
  id_to_name :: "(string, string) dict"
  stereotype_applications :: "(string, string) dict"

definition new_analyzer :: "'d analyzer" where
  "new_analyzer = \<lparr>requirements = [], elements = [], id_to_name = [],
     stereotype_applications = []\<rparr>"

text \<open>The declared type of an element: the namespaced attribute, else \<open>xmi:type\<close>, else empty.\<close>

definition xmi_type_of :: "xml \<Rightarrow> string" where
  "xmi_type_of elem = get_or elem (XMI @ ''type'') (get_or elem ''xmi:type'' [])"

text \<open>The identity of an element: the namespaced attribute, else \<open>xmi:id\<close>, else nothing.\<close>

definition xmi_id_of :: "xml \<Rightarrow> string option" where
  "xmi_id_of elem = get_or_opt elem (XMI @ ''id'') (get_attr elem ''xmi:id'')"

text \<open>
  \<open>if k not in self.elements: self.elements[k] = {}\<close> followed by a read of
  \<open>self.elements[k]\<close>.
\<close>

definition entry_of :: "(string, elem_data) dict \<Rightarrow> string \<Rightarrow> elem_data" where
  "entry_of els k = (case dict_get els k of None \<Rightarrow> empty_elem_data | Some ed \<Rightarrow> ed)"

text \<open>
  The stereotype-level attributes of a stereotype application, stored in the entry of its
  base element when they are present and not empty.
\<close>

definition stereotype_fields :: "xml \<Rightarrow> elem_data \<Rightarrow> elem_data" where
  "stereotype_fields elem ed0 =
     (let req_id = get_or_opt elem ''id'' (get_attr elem ''Id'');
          req_text = get_or_opt elem ''text'' (get_attr elem ''Text'');
          source_file = get_or elem ''source'' ''Unknown'';
          ed1 = (if truthy req_id then ed0\<lparr>ed_stereotype_id := req_id\<rparr> else ed0);
          ed2 = (if truthy req_text then ed1\<lparr>ed_stereotype_text := req_text\<rparr> else ed1)
      in if source_file \<noteq> [] then ed2\<lparr>ed_source_file := Some source_file\<rparr> else ed2)"

text \<open>The body of the loop of \<open>_collect_stereotype_applications\<close>.\<close>

definition collect_stereotype_step :: "xml \<Rightarrow> 'd analyzer \<Rightarrow> 'd analyzer" where
  "collect_stereotype_step elem a =
     (if contains ''Requirement'' (tag elem) \<or> contains ''Requirement'' (xmi_type_of elem) then
        (let base_class = py_or (py_or (get_attr elem ''base_Class'') (get_attr elem ''base_Element''))
                            (get_attr elem (UML @ ''base_Class''))
         in case base_class of
              None \<Rightarrow> a
            | Some bc \<Rightarrow>
                if bc = [] then a
                else a\<lparr>stereotype_applications :=
                         dict_set bc ''Requirement'' (stereotype_applications a),
                       elements :=
                         dict_set bc (stereotype_fields elem (entry_of (elements a) bc))
                           (elements a)\<rparr>)
      else a)"

definition collect_stereotype_applications :: "xml \<Rightarrow> 'd analyzer \<Rightarrow> 'd analyzer" where
  "collect_stereotype_applications root a = fold collect_stereotype_step (iter root) a"

text \<open>The body of the loop of \<open>_collect_all_elements\<close>.\<close>

definition collect_element_step :: "xml \<Rightarrow> 'd analyzer \<Rightarrow> 'd analyzer" where
  "collect_element_step elem a =
     (case xmi_id_of elem of
        None \<Rightarrow> a
      | Some xid \<Rightarrow>
          if xid = [] then a
          else
            (let nm = get_or elem ''name'' []
             in a\<lparr>id_to_name := dict_set xid (if nm \<noteq> [] then nm else xid) (id_to_name a),
                  elements := dict_set xid
                    ((entry_of (elements a) xid)
                       \<lparr>ed_name := Some nm, ed_type := Some (xmi_type_of elem),
                        ed_element := Some elem,
                        ed_source_file := Some (get_or elem ''source'' ''Unknown'')\<rparr>)
                    (elements a)\<rparr>))"

definition collect_all_elements :: "xml \<Rightarrow> 'd analyzer \<Rightarrow> 'd analyzer" where
  "collect_all_elements root a = fold collect_element_step (iter root) a"

text \<open>\<open>_is_valid_requirement_name\<close>.\<close>

definition is_valid_requirement_name :: "string \<Rightarrow> bool" where
  "is_valid_requirement_name nm =
     (if nm = [] \<or> nm = ''Unnamed Requirement'' then False
      else if length (strip nm) \<le> 2 then False
      else if isdigit (strip nm) then False
      else if strip nm \<in> set [''+'', ''-'', ''*'', ''/'', ''='', ''.'', '',''] then False
      else if isdigit (remove_spaces (strip nm)) then False
      else True)"

text \<open>
  \<open>_parse_requirement_element\<close>. The parameter \<open>details\<close> stands for the computation of
  the fields carried in \<open>r_details\<close>.
\<close>

definition parse_requirement_element ::
  "(xml \<Rightarrow> elem_data \<Rightarrow> 'd) \<Rightarrow> xml \<Rightarrow> elem_data \<Rightarrow> 'd Requirement option" where
  "parse_requirement_element details elem ed =
     (let xid = get_or elem (XMI @ ''id'') (get_or elem ''xmi:id'' []) in
      if xid = [] then None
      else Some \<lparr>r_xmi_id = xid,
                 r_name = (case ed_name ed of None \<Rightarrow> ''Unnamed Requirement'' | Some nm \<Rightarrow> nm),
                 r_details = details elem ed\<rparr>)"

text \<open>The body of the loop of \<open>_extract_requirements\<close> over the stereotype index.\<close>

definition extract_requirement_step ::
  "(xml \<Rightarrow> elem_data \<Rightarrow> 'd) \<Rightarrow> string \<times> string \<Rightarrow> 'd analyzer \<Rightarrow> 'd analyzer" where
  "extract_requirement_step details item a =
     (let (xid, stereotype) = item in
      if stereotype = ''Requirement'' then
        (case dict_get (elements a) xid of
           None \<Rightarrow> a
         | Some ed \<Rightarrow>
             (case ed_element ed of
                None \<Rightarrow> a
              | Some elem \<Rightarrow>
                  (let nm = (case ed_name ed of None \<Rightarrow> ''Unnamed Requirement'' | Some nm \<Rightarrow> nm) in
                   if is_valid_requirement_name nm then
                     (case parse_requirement_element details elem ed of
                        None \<Rightarrow> a
                      | Some req \<Rightarrow>
                          a\<lparr>requirements := dict_set (r_xmi_id req) req (requirements a)\<rparr>)
                   else a)))
      else a)"

definition extract_requirements :: "(xml \<Rightarrow> elem_data \<Rightarrow> 'd) \<Rightarrow> 'd analyzer \<Rightarrow> 'd analyzer" where
  "extract_requirements details a =
     fold (extract_requirement_step details) (stereotype_applications a) a"

text \<open>The first three steps of \<open>_parse_xmi_content\<close> on a fresh analyzer.\<close>

definition parse_requirements :: "(xml \<Rightarrow> elem_data \<Rightarrow> 'd) \<Rightarrow> xml \<Rightarrow> 'd analyzer" where
  "parse_requirements details root =
     extract_requirements details
       (collect_all_elements root (collect_stereotype_applications root new_analyzer))"

text \<open>\<open>_determine_relationship_type\<close>.\<close>

definition keyword_type :: "string \<Rightarrow> string option" where
  "keyword_type s =
     (if contains ''derive'' s then Some ''derives''
      else if contains ''refine'' s then Some ''refines''
      else if contains ''satisfy'' s then Some ''satisfies''
      else if contains ''verify'' s then Some ''verifies''
      else None)"

definition determine_relationship_type :: "'d analyzer \<Rightarrow> xml \<Rightarrow> string" where
  "determine_relationship_type a elem =
     (let by_stereotype =
            (case xmi_id_of elem of
               None \<Rightarrow> None
             | Some xid \<Rightarrow>
                 if xid = [] then None
                 else (case dict_get (stereotype_applications a) xid of
                         None \<Rightarrow> None
                       | Some stereo \<Rightarrow> keyword_type (lower stereo)))
      in case by_stereotype of
           Some t \<Rightarrow> t
         | None \<Rightarrow>
             (case keyword_type (lower (get_or elem ''name'' [])) of
                Some t \<Rightarrow> t
              | None \<Rightarrow> ''traces''))"

text \<open>
  A model with a relationship \<open>d1\<close> between two requirements and a stereotype application
  \<open>DeriveReqt\<close> whose base element is \<open>d1\<close>.
\<close>

definition derive_application :: xml where
  "derive_application =
     Element ''{http://www.omg.org/spec/SysML/20150709}DeriveReqt''
       [(XMI @ ''id'', ''s1''), (''base_Element'', ''d1'')] None []"

definition derive_relationship :: xml where
  "derive_relationship =
     Element ''packagedElement''
       [(XMI @ ''type'', ''uml:Abstraction''), (XMI @ ''id'', ''d1''),
        (''client'', ''r1''), (''supplier'', ''r2'')] None []"

definition derive_model :: xml where
  "derive_model = Element (XMI @ ''XMI'') [] None [derive_relationship, derive_application]"

text \<open>
  A model with two stereotyped elements: one named as a requirement, one whose name is
  digits and spaces only.
\<close>

definition requirement_model :: xml where
  "requirement_model =
     Element (XMI @ ''XMI'') [] None
       [Element ''packagedElement''
          [(XMI @ ''type'', ''uml:Class''), (XMI @ ''id'', ''r1''), (''name'', ''  Brake system '')]
          None [],
        Element ''packagedElement''
          [(XMI @ ''type'', ''uml:Class''), (XMI @ ''id'', ''r2''), (''name'', ''12 3'')] None [],
        Element ''{http://www.omg.org/spec/SysML/20150709}Requirement''
          [(XMI @ ''id'', ''s1''), (''base_Class'', ''r1'')] None [],
        Element ''{http://www.omg.org/spec/SysML/20150709}Requirement''
          [(XMI @ ''id'', ''s2''), (''base_Class'', ''r2'')] None []]"

definition no_details :: "xml \<Rightarrow> elem_data \<Rightarrow> unit" where
  "no_details elem ed = ()"

text \<open>
  Three properties of an analyzer: every stored requirement has a name that passed the
  filter; every entry that holds an element holds an element of the tree and its name;
  every stored requirement carries the name of an element of the tree.
\<close>

definition names_valid :: "'d analyzer \<Rightarrow> bool" where
  "names_valid a \<longleftrightarrow> (\<forall>kr \<in> set (requirements a). is_valid_requirement_name (r_name (snd kr)))"

definition elements_from :: "xml \<Rightarrow> 'd analyzer \<Rightarrow> bool" where
  "elements_from root a \<longleftrightarrow>
     (\<forall>ke \<in> set (elements a). \<forall>e. ed_element (snd ke) = Some e \<longrightarrow>
        e \<in> set (iter root) \<and> ed_name (snd ke) = Some (get_or e ''name'' []))"

definition names_from :: "xml \<Rightarrow> 'd analyzer \<Rightarrow> bool" where
  "names_from root a \<longleftrightarrow>
     (\<forall>kr \<in> set (requirements a). \<exists>e \<in> set (iter root). r_name (snd kr) = get_or e ''name'' [])"

section \<open>The Simulink analyzer: connections (\<open>simulink_analyzer.py\<close>)\<close>

record Connection =
  source_block :: string
  source_port :: int
  dest_block :: string
  dest_port :: int
  signal_name :: "string option"
  branches :: "(string \<times> int) list option"

text \<open>
  \<open>elem.find('P[@Name="..."]')\<close>: the first child with the tag \<open>P\<close> whose attribute
  \<open>Name\<close> has the given value; \<open>elem.findall(tag)\<close>: the children with the given tag.
  Both look at the children of the element only.
\<close>

definition find_P :: "xml \<Rightarrow> string \<Rightarrow> xml option" where
  "find_P elem nm =
     List.find (\<lambda>c. tag c = ''P'' \<and> get_attr c ''Name'' = Some nm) (children elem)"

definition findall :: "xml \<Rightarrow> string \<Rightarrow> xml list" where
  "findall elem t = filter (\<lambda>c. tag c = t) (children elem)"

text \<open>The characters matched by \<open>\d\<close>, and \<open>int\<close> of a string of them.\<close>

definition is_decimal :: "char \<Rightarrow> bool" where
  "is_decimal c = (c \<in> set ''0123456789'')"

definition int_of_decimal :: "string \<Rightarrow> int" where
  "int_of_decimal s = foldl (\<lambda>acc c. 10 * acc + (int (of_char c) - 48)) 0 s"

text \<open>
  \<open>parse_endpoint\<close>. \<open>re.match\<close> anchors the pattern at the start of the string and
  accepts any text after it. \<open>(\d+)#(out|in):(\d+)\<close> takes the longest run of digits, the
  separator and the port kind, and the longest run of digits after the colon;
  \<open>(\d+)#state\<close> is tried when it fails.
\<close>

definition parse_endpoint :: "string option \<Rightarrow> (string \<times> string \<times> int) option" where
  "parse_endpoint endpoint =
     (case endpoint of
        None \<Rightarrow> None
      | Some e \<Rightarrow>
          (let sid = takeWhile is_decimal e; rest = dropWhile is_decimal e in
           if sid = [] then None
           else if prefix ''#out:'' rest \<and> takeWhile is_decimal (drop 5 rest) \<noteq> []
             then Some (sid, ''out'', int_of_decimal (takeWhile is_decimal (drop 5 rest)))
           else if prefix ''#in:'' rest \<and> takeWhile is_decimal (drop 4 rest) \<noteq> []
             then Some (sid, ''in'', int_of_decimal (takeWhile is_decimal (drop 4 rest)))
           else if prefix ''#state'' rest then Some (sid, ''state'', 0)
           else None))"

text \<open>The body of the loop over the branches of a line.\<close>

definition branch_step ::
  "string \<Rightarrow> int \<Rightarrow> string option \<Rightarrow> xml \<Rightarrow> Connection list \<Rightarrow> Connection list" where
  "branch_step src_sid src_port sig branch connections =
     (case find_P branch ''Dst'' of
        None \<Rightarrow> connections
      | Some branch_dst \<Rightarrow>
          (case parse_endpoint (etext branch_dst) of
             None \<Rightarrow> connections
           | Some (branch_sid, _, branch_port) \<Rightarrow>
               connections @
                 [\<lparr>source_block = src_sid, source_port = src_port, dest_block = branch_sid,
                   dest_port = branch_port, signal_name = sig, branches = None\<rparr>]))"

text \<open>\<open>_parse_connection\<close>; the state is \<open>self.connections\<close>.\<close>

definition parse_connection :: "xml \<Rightarrow> Connection list \<Rightarrow> Connection list" where
  "parse_connection line_element connections =
     (case find_P line_element ''Src'' of
        None \<Rightarrow> connections
      | Some src_elem \<Rightarrow>
          (let sig = (case find_P line_element ''Name'' of
                        None \<Rightarrow> None | Some name_elem \<Rightarrow> etext name_elem)
           in case parse_endpoint (etext src_elem) of
                None \<Rightarrow> connections
              | Some (src_sid, src_type, src_port) \<Rightarrow>
                  (let connections1 =
                         (case find_P line_element ''Dst'' of
                            None \<Rightarrow> connections
                          | Some dst_elem \<Rightarrow>
                              (case parse_endpoint (etext dst_elem) of
                                 None \<Rightarrow> connections
                               | Some (dst_sid, dst_type, dst_port) \<Rightarrow>
                                   connections @
                                     [\<lparr>source_block = src_sid, source_port = src_port,
                                       dest_block = dst_sid, dest_port = dst_port,
                                       signal_name = sig, branches = None\<rparr>]))
                   in fold (branch_step src_sid src_port sig)
                        (findall line_element ''Branch'') connections1)))"

text \<open>
  A line from \<open>10#out:1\<close> with two branches, each holding its destination and a name of
  its own; the line itself has neither a destination nor a name.
\<close>

definition P_elem :: "string \<Rightarrow> string \<Rightarrow> xml" where
  "P_elem nm txt = Element ''P'' [(''Name'', nm)] (Some txt) []"

definition branched_line :: xml where
  "branched_line =
     Element ''Line'' [] None
       [P_elem ''ZOrder'' ''3'',
        P_elem ''Src'' ''10#out:1'',
        Element ''Branch'' [] None [P_elem ''Name'' ''inner'', P_elem ''Dst'' ''20#in:1''],
        Element ''Branch'' [] None [P_elem ''Dst'' ''30#in:1'']]"

definition state_line :: xml where
  "state_line =
     Element ''Line'' [] None [P_elem ''Src'' ''7#state'', P_elem ''Dst'' ''8#in:2'']"

definition malformed_line :: xml where
  "malformed_line =
     Element ''Line'' [] None [P_elem ''Src'' ''10:out#1'', P_elem ''Dst'' ''20#in:1'']"

text \<open>
  The endpoint shapes as \<open>re.match\<close> reads them: the string starts with a block id of one
  or more digits, followed by \<open>#out:\<close> or \<open>#in:\<close> and a port of one or more digits, or
  by \<open>#state\<close>; any text may follow.
\<close>

definition decimal_string :: "string \<Rightarrow> bool" where
  "decimal_string s \<longleftrightarrow> s \<noteq> [] \<and> list_all is_decimal s"

definition starts_with_shape :: "string \<Rightarrow> bool" where
  "starts_with_shape e \<longleftrightarrow>
     (\<exists>sid port rest. decimal_string sid \<and>
        ((decimal_string port \<and> (e = sid @ ''#out:'' @ port @ rest \<or> e = sid @ ''#in:'' @ port @ rest))
         \<or> e = sid @ ''#state'' @ rest))"

text \<open>An endpoint text that yields no endpoint: absent, or not starting with a shape.\<close>

definition unparseable :: "string option \<Rightarrow> bool" where
  "unparseable t \<longleftrightarrow> (case t of None \<Rightarrow> True | Some e \<Rightarrow> \<not> starts_with_shape e)"

text \<open>A line whose source endpoint is a regular endpoint followed by other text.\<close>

definition trailing_text_line :: xml where
  "trailing_text_line =
     Element ''Line'' [] None [P_elem ''Src'' ''10#out:1junk'', P_elem ''Dst'' ''20#in:1'']"

section \<open>The generated-code mapper (\<open>SlxcAnalyzer\<close> in \<open>simulink_analyzer.py\<close>)\<close>

record CodeMapping =
  file_path :: string
  line_number :: nat
  block_path :: string
  block_name :: string
  code_line :: string

text \<open>\<open>content.split('\n')\<close>: the text between the line feeds, at least one line.\<close>

fun split_lines :: "string \<Rightarrow> string list" where
  "split_lines [] = [[]]"
| "split_lines (c # cs) =
     (if c = CHR 0x0A then [] # split_lines cs
      else (case split_lines cs of [] \<Rightarrow> [[c]] | l # ls \<Rightarrow> (c # l) # ls))"

text \<open>
  \<open>BLOCK_REF_PATTERN\<close> at the start of a string: a quote and \<open><\<close>, the longest run of
  characters other than \<open>></\<close>, not empty, then \<open>></\<close> and \<open>/\<close>, the longest run of
  characters other than the quote, not empty, then a quote. The result is the two groups
  and the text after the match. A shorter run never helps, since the character after it
  belongs to the run.
\<close>

definition match_block_ref :: "string \<Rightarrow> ((string \<times> string) \<times> string) option" where
  "match_block_ref s =
     (case s of
        q # lt # r \<Rightarrow>
          if q = CHR 0x27 \<and> lt = CHR ''<'' then
            (let path = takeWhile (\<lambda>c. c \<noteq> CHR ''>'') r;
                 r1 = dropWhile (\<lambda>c. c \<noteq> CHR ''>'') r
             in if path = [] then None
                else (case r1 of
                        gt # sl # r2 \<Rightarrow>
                          if sl = CHR ''/'' then
                            (let nm = takeWhile (\<lambda>c. c \<noteq> CHR 0x27) r2;
                                 r3 = dropWhile (\<lambda>c. c \<noteq> CHR 0x27) r2
                             in if nm = [] then None
                                else (case r3 of [] \<Rightarrow> None | q2 # r4 \<Rightarrow> Some ((path, nm), r4)))
                          else None
                      | _ \<Rightarrow> None))
          else None
      | _ \<Rightarrow> None)"

text \<open>
  \<open>BLOCK_REF_PATTERN.findall(line)\<close>: the matches from left to right, the search going on
  after each match, or one character further where there is none.
\<close>

function findall_block_refs :: "string \<Rightarrow> (string \<times> string) list" where
  "findall_block_refs [] = []"
| "findall_block_refs (c # cs) =
     (case match_block_ref (c # cs) of
        Some (groups, rest) \<Rightarrow> groups # findall_block_refs rest
      | None \<Rightarrow> findall_block_refs cs)"
  by pat_completeness auto

termination
proof (relation "measure length")
  show "wf (measure length)" by simp
next
  fix c :: char and cs :: string
  show "(cs, c # cs) \<in> measure length" by simp
next
  fix c :: char and cs rest :: string and x :: "(string \<times> string) \<times> string"
    and groups :: "string \<times> string"
  assume m: "match_block_ref (c # cs) = Some x" and x: "(groups, rest) = x"
  from m x obtain lt r gt sl r2 q2 where
    cs: "cs = lt # r" and r1: "dropWhile (\<lambda>c. c \<noteq> CHR ''>'') r = gt # sl # r2"
    and r3: "dropWhile (\<lambda>c. c \<noteq> CHR 0x27) r2 = q2 # rest"
    unfolding match_block_ref_def Let_def
    by (auto split: list.splits if_splits)
  have "length (q2 # rest) \<le> length r2" unfolding r3[symmetric] by (rule length_dropWhile_le)
  moreover have "length (gt # sl # r2) \<le> length r" unfolding r1[symmetric] by (rule length_dropWhile_le)
  ultimately have "length rest < length (c # cs)" using cs by simp
  then show "(rest, c # cs) \<in> measure length" by simp
qed

text \<open>\<open>_parse_c_file\<close>: the mappings of one line, of one file; the state is \<open>code_mappings\<close>.\<close>

definition line_mappings :: "string \<Rightarrow> nat \<times> string \<Rightarrow> CodeMapping list" where
  "line_mappings fp numbered =
     (let (line_num, line) = numbered in
      map (\<lambda>(path, nm).
             \<lparr>file_path = fp, line_number = line_num,
              block_path = ''<'' @ path @ ''>/'' @ nm,
              block_name = nm, code_line = strip line\<rparr>)
        (findall_block_refs line))"

definition enumerate1 :: "'a list \<Rightarrow> (nat \<times> 'a) list" where
  "enumerate1 xs = zip [1 ..< Suc (length xs)] xs"

definition parse_c_file :: "string \<Rightarrow> string \<Rightarrow> CodeMapping list \<Rightarrow> CodeMapping list" where
  "parse_c_file fp content code_mappings =
     code_mappings @ concat (map (line_mappings fp) (enumerate1 (split_lines content)))"

record SlxcAnalyzer =
  slxc_path :: string
  c_files :: "(string, string) dict"
  code_mappings :: "CodeMapping list"

text \<open>\<open>analyze_code_mappings\<close>.\<close>

definition analyze_code_mappings :: "SlxcAnalyzer \<Rightarrow> SlxcAnalyzer" where
  "analyze_code_mappings a =
     a\<lparr>code_mappings :=
         fold (\<lambda>(fp, content). parse_c_file fp content) (c_files a) (code_mappings a)\<rparr>"

text \<open>An entry of the exported document and the document.\<close>

record mapping_entry =
  e_file_path :: string
  e_block_path :: string
  e_block_name :: string
  e_location :: string
  code_references :: "(nat \<times> string) list"

record mappings_data =
  m_source_file :: string
  m_c_files :: "string list"
  mappings :: "mapping_entry list"

text \<open>The grouping loop of \<open>export_to_json\<close>; the state is \<open>by_location\<close>.\<close>

definition group_step ::
  "CodeMapping \<Rightarrow> (string \<times> string, (nat \<times> string) list) dict
     \<Rightarrow> (string \<times> string, (nat \<times> string) list) dict" where
  "group_step m by_location =
     (let location_key = (file_path m, block_path m);
          refs = (case dict_get by_location location_key of None \<Rightarrow> [] | Some rs \<Rightarrow> rs)
      in dict_set location_key (refs @ [(line_number m, code_line m)]) by_location)"

text \<open>\<open>block_path.split('/')[-1]\<close>.\<close>

definition last_segment :: "string \<Rightarrow> string" where
  "last_segment s = rev (takeWhile (\<lambda>c. c \<noteq> CHR ''/'') (rev s))"

definition entry_of_group :: "(string \<times> string) \<times> (nat \<times> string) list \<Rightarrow> mapping_entry" where
  "entry_of_group g =
     (let ((fp, bp), refs) = g in
      \<lparr>e_file_path = fp, e_block_path = bp, e_block_name = last_segment bp,
       e_location = fp @ '':'' @ bp, code_references = refs\<rparr>)"

definition export_to_json :: "SlxcAnalyzer \<Rightarrow> mappings_data" where
  "export_to_json a =
     \<lparr>m_source_file = slxc_path a,
      m_c_files = keys (c_files a),
      mappings = map entry_of_group (fold group_step (code_mappings a) [])\<rparr>"

text \<open>The entries of a document for a file and a block path.\<close>

definition entries_for :: "string \<Rightarrow> string \<Rightarrow> mappings_data \<Rightarrow> mapping_entry list" where
  "entries_for fp bp doc =
     filter (\<lambda>e. e_file_path e = fp \<and> e_block_path e = bp) (mappings doc)"

text \<open>
  A file \<open>foo.c\<close> of 43 lines: line 42 and line 43 are indented statements with the
  comment token of the block \<open><S1>/K\<close>, the lines before are empty.
\<close>

definition quote :: string where
  "quote = [CHR 0x27]"

definition gain_line :: string where
  "gain_line = ''y = K * u; /* Gain: '' @ quote @ ''<S1>/K'' @ quote @ '' */''"

definition foo_c :: string where
  "foo_c = replicate 41 (CHR 0x0A) @ ''  '' @ gain_line @ [CHR 0x0A] @ ''    '' @ gain_line"

definition example_slxc :: SlxcAnalyzer where
  "example_slxc = \<lparr>slxc_path = ''model.slxc'', c_files = [(''foo.c'', foo_c)], code_mappings = []\<rparr>"

text \<open>
  A file \<open>foo.c\<close> whose line 42 holds the same comment token after a character literal
  of \<open><\<close>.
\<close>

definition literal_line :: string where
  "literal_line =
     ''if (c == '' @ quote @ ''<'' @ quote @ '') y = 0; /* Gain: '' @ quote @ ''<S1>/K'' @ quote
       @ '' */''"

definition literal_c :: string where
  "literal_c = replicate 41 (CHR 0x0A) @ literal_line"

definition literal_slxc :: SlxcAnalyzer where
  "literal_slxc =
     \<lparr>slxc_path = ''model.slxc'', c_files = [(''foo.c'', literal_c)], code_mappings = []\<rparr>"

text \<open>
  A text in which no quote is followed at once by \<open><\<close>: no match of the pattern starts in
  it.
\<close>

fun no_ref_start :: "string \<Rightarrow> bool" where
  "no_ref_start (a # b # cs) \<longleftrightarrow> \<not> (a = CHR 0x27 \<and> b = CHR ''<'') \<and> no_ref_start (b # cs)"
| "no_ref_start cs \<longleftrightarrow> True"

text \<open>The occurrences recorded for a key, in the order of the mappings.\<close>

definition refs_of :: "string \<times> string \<Rightarrow> CodeMapping list \<Rightarrow> (nat \<times> string) list" where
  "refs_of k ms =
     map (\<lambda>m. (line_number m, code_line m)) (filter (\<lambda>m. (file_path m, block_path m) = k) ms)"

section \<open>The batch processor (\<open>cameo_integration/batch_cameo_processor.py\<close>)\<close>

text \<open>
  An entry of \<open>summary["files"]\<close>, the summary, and an entry of \<open>self.results\<close>. The
  per-requirement digest that a result also carries is read by no loop below and is left
  out.
\<close>

record file_info =
  fi_filename :: string
  fi_status :: string
  fi_requirements :: "nat option"
  fi_output_file :: "string option"
  fi_error :: "string option"

record batch_summary =
  total_files :: nat
  successful :: nat
  failed :: nat
  total_requirements :: nat
  files :: "file_info list"

record batch_result =
  requirement_count :: nat
  element_count :: nat
  output_file :: string

record processor =
  output_dir :: string
  results :: "(string, batch_result) dict"
  summary :: batch_summary

text \<open>
  The disk: the graph documents by path, each given by its nodes dictionary, and the
  summary document.
\<close>

record disk =
  graph_files :: "string \<Rightarrow> nodes option"
  summary_file :: "batch_summary option"

text \<open>
  What the analysis of one input file gives: an exception with its message, or the
  number of requirements and of elements found and the nodes dictionary exported.
\<close>

datatype outcome = Failed string | Exported nat nat nodes

definition new_processor :: "string \<Rightarrow> processor" where
  "new_processor out =
     \<lparr>output_dir = out, results = [],
      summary = \<lparr>total_files = 0, successful = 0, failed = 0, total_requirements = 0, files = []\<rparr>\<rparr>"

text \<open>
  The body of the loop of \<open>process_all_files\<close> for the input file with the given stem,
  \<open>_process_single_file\<close> included.
\<close>

definition process_file :: "string \<times> outcome \<Rightarrow> processor \<times> disk \<Rightarrow> processor \<times> disk" where
  "process_file input st =
     (let (stem, oc) = input; (p, d) = st; s = summary p in
      case oc of
        Exported rc ec ns \<Rightarrow>
          (let output_path = output_dir p @ ''/'' @ stem @ ''_requirements.json'' in
           (p\<lparr>results := dict_set stem
                  \<lparr>requirement_count = rc, element_count = ec, output_file = output_path\<rparr>
                  (results p),
               summary := s\<lparr>successful := successful s + 1,
                            total_requirements := total_requirements s + rc,
                            files := files s @
                              [\<lparr>fi_filename = stem @ ''.mdzip'', fi_status = ''success'',
                                fi_requirements = Some rc, fi_output_file = Some output_path,
                                fi_error = None\<rparr>]\<rparr>\<rparr>,
            d\<lparr>graph_files := (graph_files d)(output_path := Some ns)\<rparr>))
      | Failed e \<Rightarrow>
          (p\<lparr>summary := s\<lparr>failed := failed s + 1,
                           files := files s @
                             [\<lparr>fi_filename = stem @ ''.mdzip'', fi_status = ''failed'',
                               fi_requirements = None, fi_output_file = None,
                               fi_error = Some e\<rparr>]\<rparr>\<rparr>,
           d))"

text \<open>\<open>process_all_files\<close>, which ends with \<open>_save_summary\<close>.\<close>

definition process_all_files :: "(string \<times> outcome) list \<Rightarrow> processor \<times> disk \<Rightarrow> processor \<times> disk" where
  "process_all_files inputs st =
     (let (p0, d0) = st;
          (p, d) = fold process_file inputs
                     (p0\<lparr>summary := (summary p0)\<lparr>total_files := length inputs\<rparr>\<rparr>, d0)
      in (p, d\<lparr>summary_file := Some (summary p)\<rparr>))"

text \<open>The inner loop of \<open>merge_all_requirements\<close> over the nodes of one file.\<close>

definition merge_node :: "string \<Rightarrow> string \<times> canonical_node \<Rightarrow> nodes \<Rightarrow> nodes" where
  "merge_node file_stem item merged =
     dict_set (fst item) ((snd item)\<lparr>source_file := Some file_stem\<rparr>) merged"

text \<open>The body of the outer loop over \<open>self.results.items()\<close>.\<close>

definition merge_file :: "(string \<Rightarrow> nodes option) \<Rightarrow> string \<times> batch_result \<Rightarrow> nodes \<Rightarrow> nodes" where
  "merge_file fs item merged =
     (case fs (output_file (snd item)) of
        None \<Rightarrow> merged
      | Some ns \<Rightarrow> fold (merge_node (fst item)) ns merged)"

text \<open>
  \<open>merge_all_requirements\<close>: the processor and the disk afterwards, and the merged nodes.
\<close>

definition merge_all_requirements :: "processor \<Rightarrow> disk \<Rightarrow> processor \<times> disk \<times> nodes" where
  "merge_all_requirements p d =
     (let merged = fold (merge_file (graph_files d)) (results p) [] in
      (p,
       d\<lparr>graph_files := (graph_files d)(output_dir p @ ''/all_requirements.json'' := Some merged)\<rparr>,
       merged))"

text \<open>The outcome of a file with its nodes left out.\<close>

fun forget_nodes :: "outcome \<Rightarrow> outcome" where
  "forget_nodes (Failed e) = Failed e"
| "forget_nodes (Exported rc ec ns) = Exported rc ec []"

text \<open>
  Two batches of two files. In the first both files export a node R1, with different
  names; in the second the file b exports a node R2 instead.
\<close>

definition node_named :: "string \<Rightarrow> canonical_node" where
  "node_named nm = \<lparr>name = nm, node_type = ''Requirement_General'', node_text = Some ''t'',
     xmi_id = Some ''x'', incoming = [], outgoing = [], properties = [], source_file = None\<rparr>"

definition colliding_batch :: "(string \<times> outcome) list" where
  "colliding_batch =
     [(''a'', Exported 1 5 [(''R1'', node_named ''first'')]),
      (''b'', Exported 1 5 [(''R1'', node_named ''second'')])]"

definition disjoint_batch :: "(string \<times> outcome) list" where
  "disjoint_batch =
     [(''a'', Exported 1 5 [(''R1'', node_named ''first'')]),
      (''b'', Exported 1 5 [(''R2'', node_named ''second'')])]"

definition empty_disk :: disk where
  "empty_disk = \<lparr>graph_files = (\<lambda>path. None), summary_file = None\<rparr>"

text \<open>The processor and the disk after a batch, and after the merge that follows.\<close>

definition after_batch :: "(string \<times> outcome) list \<Rightarrow> processor \<times> disk" where
  "after_batch inputs = process_all_files inputs (new_processor ''out'', empty_disk)"

definition after_merge :: "(string \<times> outcome) list \<Rightarrow> processor \<times> disk \<times> nodes" where
  "after_merge inputs = merge_all_requirements (fst (after_batch inputs)) (snd (after_batch inputs))"

text \<open>The file of a results entry is missing or holds no node with the id \<open>k\<close>.\<close>

definition lacks :: "(string \<Rightarrow> nodes option) \<Rightarrow> string \<Rightarrow> string \<times> batch_result \<Rightarrow> bool" where
  "lacks fs k item =
     (case fs (output_file (snd item)) of None \<Rightarrow> True | Some ns \<Rightarrow> k \<notin> set (keys ns))"

section \<open>Proofs: hierarchy inference\<close>

lemma keys_dict_modify: "keys (dict_modify k f d) = keys d"
  by (induction d) (auto simp: keys_def)

lemma dict_get_modify:
  "dict_get (dict_modify k f d) k' =
     (if k' = k then map_option f (dict_get d k) else dict_get d k')"
  by (induction d) (auto simp: dict_get_def)

lemma dict_modify_id: "(\<And>v. dict_get d k = Some v \<Longrightarrow> f v = v) \<Longrightarrow> dict_modify k f d = d"
  by (induction d) (auto simp: dict_get_def prod_eq_iff)

lemma dict_get_None_iff: "dict_get d k = None \<longleftrightarrow> k \<notin> set (keys d)"
  by (simp add: dict_get_def keys_def map_of_eq_None_iff)

lemma dict_get_Some_keys: "dict_get d k = Some v \<Longrightarrow> k \<in> set (keys d)"
  using dict_get_None_iff[of d k] by auto

lemma length_rsplit1: "CHR ''.'' \<in> set k \<Longrightarrow> length (rsplit1 (CHR ''.'') k) = 2"
  by (simp add: rsplit1_def)

lemma fst_hierarchy_step: "fst (hierarchy_step k (ns, c)) = step_nodes k ns"
  by (auto simp: hierarchy_step_def step_nodes_def parent_of_def Let_def length_rsplit1
      dict_get_None_iff split: option.splits dest: dict_get_Some_keys)

lemma fold_hierarchy_step:
  "fst (fold hierarchy_step ks (ns, c)) = fold step_nodes ks ns"
proof (induction ks arbitrary: ns c)
  case Nil
  show ?case by simp
next
  case (Cons k ks)
  obtain ns' c' where st: "hierarchy_step k (ns, c) = (ns', c')" by (cases "hierarchy_step k (ns, c)")
  then have "ns' = step_nodes k ns" using fst_hierarchy_step[of k ns c] by simp
  with st Cons show ?case by simp
qed


lemma keys_step_nodes: "keys (step_nodes k ns) = keys ns"
  by (simp add: step_nodes_def keys_dict_modify)

lemma incoming_of_modify_in:
  "incoming_of (dict_modify k (add_incoming p) ns) k' =
     (if k' = k \<and> k \<in> set (keys ns) \<and> p \<notin> set (incoming_of ns k)
      then incoming_of ns k @ [p] else incoming_of ns k')"
  by (auto simp: incoming_of_def dict_get_modify add_incoming_def dict_get_None_iff
      split: option.splits dest: dict_get_Some_keys)

lemma incoming_of_modify_out:
  "incoming_of (dict_modify k (add_outgoing c) ns) k' = incoming_of ns k'"
  by (auto simp: incoming_of_def dict_get_modify add_outgoing_def split: option.splits)

lemma outgoing_of_modify_out:
  "outgoing_of (dict_modify k (add_outgoing c) ns) k' =
     (if k' = k \<and> k \<in> set (keys ns) \<and> c \<notin> set (outgoing_of ns k)
      then outgoing_of ns k @ [c] else outgoing_of ns k')"
  by (auto simp: outgoing_of_def dict_get_modify add_outgoing_def dict_get_None_iff
      split: option.splits dest: dict_get_Some_keys)

lemma outgoing_of_modify_in:
  "outgoing_of (dict_modify k (add_incoming p) ns) k' = outgoing_of ns k'"
  by (auto simp: outgoing_of_def dict_get_modify add_incoming_def split: option.splits)

lemmas of_modify = incoming_of_modify_in incoming_of_modify_out outgoing_of_modify_out
  outgoing_of_modify_in keys_dict_modify

lemma incoming_step_mono: "set (incoming_of ns k') \<subseteq> set (incoming_of (step_nodes k ns) k')"
  by (auto simp: step_nodes_def of_modify)

lemma outgoing_step_mono: "set (outgoing_of ns k') \<subseteq> set (outgoing_of (step_nodes k ns) k')"
  by (auto simp: step_nodes_def of_modify)

lemma settled_after_step: "settled k (step_nodes k ns)"
  by (auto simp: settled_def step_nodes_def of_modify)

lemma settled_preserved: "settled k ns \<Longrightarrow> settled k (step_nodes k' ns)"
  using incoming_step_mono[of ns k k'] outgoing_step_mono[of ns "parent_of k" k']
  by (auto simp: settled_def keys_step_nodes)

lemma settled_fixpoint:
  assumes "settled k ns"
  shows "step_nodes k ns = ns"
proof (cases "CHR ''.'' \<in> set k \<and> parent_of k \<in> set (keys ns) \<and> k \<in> set (keys ns)")
  case False
  then show ?thesis by (auto simp: step_nodes_def)
next
  case True
  with assms have inc: "parent_of k \<in> set (incoming_of ns k)"
    and out: "k \<in> set (outgoing_of ns (parent_of k))"
    by (simp_all add: settled_def)
  have 1: "dict_modify k (add_incoming (parent_of k)) ns = ns"
    using inc by (intro dict_modify_id) (simp add: incoming_of_def add_incoming_def)
  have 2: "dict_modify (parent_of k) (add_outgoing k) ns = ns"
    using out by (intro dict_modify_id) (simp add: outgoing_of_def add_outgoing_def)
  show ?thesis using True by (simp add: step_nodes_def 1 2)
qed

lemma keys_fold_step: "keys (fold step_nodes ks ns) = keys ns"
  by (induction ks arbitrary: ns) (simp_all add: keys_step_nodes)

lemma settled_fold_preserved: "settled k ns \<Longrightarrow> settled k (fold step_nodes ks ns)"
  by (induction ks arbitrary: ns) (simp_all add: settled_preserved)

lemma settled_after_fold: "k \<in> set ks \<Longrightarrow> settled k (fold step_nodes ks ns)"
  by (induction ks arbitrary: ns) (auto simp: settled_after_step settled_fold_preserved)

lemma fold_settled_id: "(\<And>k. k \<in> set ks \<Longrightarrow> settled k ns) \<Longrightarrow> fold step_nodes ks ns = ns"
  by (induction ks) (simp_all add: settled_fixpoint)

lemma hierarchy_step_eq:
  "hierarchy_step k (ns, c) =
     (step_nodes k ns,
      if CHR ''.'' \<in> set k \<and> parent_of k \<in> set (keys ns) \<and> k \<in> set (keys ns)
           \<and> parent_of k \<notin> set (incoming_of ns k)
      then c + 1 else c)"
  by (auto simp: hierarchy_step_def step_nodes_def parent_of_def Let_def length_rsplit1
      incoming_of_def dict_get_None_iff split: option.splits dest: dict_get_Some_keys)

lemma hierarchy_step_settled: "settled k ns \<Longrightarrow> hierarchy_step k (ns, c) = (ns, c)"
  by (auto simp: hierarchy_step_eq settled_fixpoint settled_def)

lemma fold_hierarchy_settled:
  "(\<And>k. k \<in> set ks \<Longrightarrow> settled k ns) \<Longrightarrow> fold hierarchy_step ks (ns, c) = (ns, c)"
  by (induction ks) (simp_all add: hierarchy_step_settled)

lemma infer_hierarchy_fold: "infer_hierarchy ns = fold step_nodes (keys ns) ns"
  by (simp add: infer_hierarchy_def extract_hierarchy_from_ids_def fold_hierarchy_step)

lemma keys_infer_hierarchy: "keys (infer_hierarchy ns) = keys ns"
  by (simp add: infer_hierarchy_fold keys_fold_step)

lemma settled_infer: "k \<in> set (keys ns) \<Longrightarrow> settled k (infer_hierarchy ns)"
  by (simp add: infer_hierarchy_fold settled_after_fold)

lemma settled_not_key: "k \<notin> set (keys ns) \<Longrightarrow> settled k ns"
  by (simp add: settled_def)

lemma extract_hierarchy_twice:
  "extract_hierarchy_from_ids (infer_hierarchy ns) = (infer_hierarchy ns, 0)"
  unfolding extract_hierarchy_from_ids_def[of "infer_hierarchy ns"]
  by (rule fold_hierarchy_settled) (simp add: keys_infer_hierarchy settled_infer)

lemma incoming_step_dotless:
  "CHR ''.'' \<notin> set k \<Longrightarrow> incoming_of (step_nodes k' ns) k = incoming_of ns k"
  by (auto simp: step_nodes_def of_modify)

lemma incoming_fold_dotless:
  "CHR ''.'' \<notin> set k \<Longrightarrow> incoming_of (fold step_nodes ks ns) k = incoming_of ns k"
  by (induction ks arbitrary: ns) (simp_all add: incoming_step_dotless)

lemma distinct_incoming_step:
  "distinct (incoming_of ns k) \<Longrightarrow> distinct (incoming_of (step_nodes k' ns) k)"
  by (auto simp: step_nodes_def of_modify)

lemma distinct_outgoing_step:
  "distinct (outgoing_of ns k) \<Longrightarrow> distinct (outgoing_of (step_nodes k' ns) k)"
  by (auto simp: step_nodes_def of_modify)

lemma distinct_incoming_fold:
  "distinct (incoming_of ns k) \<Longrightarrow> distinct (incoming_of (fold step_nodes ks ns) k)"
  by (induction ks arbitrary: ns) (simp_all add: distinct_incoming_step)

lemma distinct_outgoing_fold:
  "distinct (outgoing_of ns k) \<Longrightarrow> distinct (outgoing_of (fold step_nodes ks ns) k)"
  by (induction ks arbitrary: ns) (simp_all add: distinct_outgoing_step)

lemma parent_of_examples:
  "parent_of ''A.1'' = ''A''" "parent_of ''A.1.2'' = ''A.1''"
  by (simp_all add: parent_of_def rsplit1_def)

lemma linked_infer:
  assumes "k \<in> set (keys ns)" "CHR ''.'' \<in> set k" "parent_of k \<in> set (keys ns)"
  shows "parent_of k \<in> set (incoming_of (infer_hierarchy ns) k)
       \<and> k \<in> set (outgoing_of (infer_hierarchy ns) (parent_of k))"
  using settled_infer[OF assms(1)] assms by (simp add: settled_def keys_infer_hierarchy)

text \<open>
  Claim C6. For a nodes map whose ids are A, A.1 and A.1.2, one application of the
  inference puts A into the incoming list of A.1 and A.1 into the incoming list of
  A.1.2, and leaves the incoming list of A as it was. In general every dotted id whose
  parent id is present is linked to it in both directions; the iteration for an id
  without a dot changes nothing and such an id never gains an incoming entry; a second
  application to the result adds no relationship and returns the same nodes; and lists
  without duplicates stay without duplicates.
\<close>

theorem hierarchy_inference_idempotent:
  "(set (keys nodes) = {''A'', ''A.1'', ''A.1.2''} \<longrightarrow>
      ''A'' \<in> set (incoming_of (infer_hierarchy nodes) ''A.1'') \<and>
      ''A.1'' \<in> set (incoming_of (infer_hierarchy nodes) ''A.1.2'') \<and>
      incoming_of (infer_hierarchy nodes) ''A'' = incoming_of nodes ''A'')
   \<and> (\<forall>k \<in> set (keys nodes). CHR ''.'' \<in> set k \<and> parent_of k \<in> set (keys nodes) \<longrightarrow>
         parent_of k \<in> set (incoming_of (infer_hierarchy nodes) k) \<and>
         k \<in> set (outgoing_of (infer_hierarchy nodes) (parent_of k)))
   \<and> (\<forall>k. CHR ''.'' \<notin> set k \<longrightarrow>
         hierarchy_step k (nodes, c) = (nodes, c) \<and>
         incoming_of (infer_hierarchy nodes) k = incoming_of nodes k)
   \<and> extract_hierarchy_from_ids (infer_hierarchy nodes) = (infer_hierarchy nodes, 0)
   \<and> infer_hierarchy (infer_hierarchy nodes) = infer_hierarchy nodes
   \<and> (\<forall>k. (distinct (incoming_of nodes k) \<longrightarrow> distinct (incoming_of (infer_hierarchy nodes) k)) \<and>
           (distinct (outgoing_of nodes k) \<longrightarrow> distinct (outgoing_of (infer_hierarchy nodes) k)))"
proof (intro conjI impI ballI allI)
  assume ks: "set (keys nodes) = {''A'', ''A.1'', ''A.1.2''}"
  show "''A'' \<in> set (incoming_of (infer_hierarchy nodes) ''A.1'')"
    using linked_infer[of "''A.1''" nodes] ks by (simp add: parent_of_examples)
  show "''A.1'' \<in> set (incoming_of (infer_hierarchy nodes) ''A.1.2'')"
    using linked_infer[of "''A.1.2''" nodes] ks by (simp add: parent_of_examples)
  show "incoming_of (infer_hierarchy nodes) ''A'' = incoming_of nodes ''A''"
    by (simp add: infer_hierarchy_fold incoming_fold_dotless)
next
  fix k assume "k \<in> set (keys nodes)" "CHR ''.'' \<in> set k \<and> parent_of k \<in> set (keys nodes)"
  then show "parent_of k \<in> set (incoming_of (infer_hierarchy nodes) k)"
    and "k \<in> set (outgoing_of (infer_hierarchy nodes) (parent_of k))"
    using linked_infer[of k nodes] by simp_all
next
  fix k assume "CHR ''.'' \<notin> set k"
  then show "hierarchy_step k (nodes, c) = (nodes, c)"
    and "incoming_of (infer_hierarchy nodes) k = incoming_of nodes k"
    by (simp_all add: hierarchy_step_def infer_hierarchy_fold incoming_fold_dotless)
next
  show "extract_hierarchy_from_ids (infer_hierarchy nodes) = (infer_hierarchy nodes, 0)"
    by (rule extract_hierarchy_twice)
  then show "infer_hierarchy (infer_hierarchy nodes) = infer_hierarchy nodes"
    by (simp add: infer_hierarchy_def)
next
  fix k
  show "distinct (incoming_of nodes k) \<Longrightarrow> distinct (incoming_of (infer_hierarchy nodes) k)"
    by (simp add: infer_hierarchy_fold distinct_incoming_fold)
  show "distinct (outgoing_of nodes k) \<Longrightarrow> distinct (outgoing_of (infer_hierarchy nodes) k)"
    by (simp add: infer_hierarchy_fold distinct_outgoing_fold)
qed

theorem hierarchy_inference_idempotent_witness:
  "set (keys example_nodes) = {''A'', ''A.1'', ''A.1.2''} \<and>
   ''A'' \<in> set (keys example_nodes) \<and> CHR ''.'' \<notin> set ''A'' \<and>
   distinct (incoming_of example_nodes ''A.1'') \<and> distinct (outgoing_of example_nodes ''A'') \<and>
   ''A'' \<in> set (incoming_of (infer_hierarchy example_nodes) ''A.1'') \<and>
   ''A.1'' \<in> set (incoming_of (infer_hierarchy example_nodes) ''A.1.2'') \<and>
   incoming_of (infer_hierarchy example_nodes) ''A'' = [] \<and>
   ''A.1'' \<in> set (outgoing_of (infer_hierarchy example_nodes) ''A'') \<and>
   distinct (incoming_of (infer_hierarchy example_nodes) ''A.1'') \<and>
   distinct (outgoing_of (infer_hierarchy example_nodes) ''A'') \<and>
   infer_hierarchy (infer_hierarchy example_nodes) = infer_hierarchy example_nodes"
  using hierarchy_inference_idempotent[of example_nodes 0]
  by (simp add: example_nodes_def example_node_def keys_def incoming_of_def outgoing_of_def
      dict_get_def parent_of_examples)

section \<open>Proofs: dictionaries\<close>

lemma dict_get_set: "dict_get (dict_set k v d) k' = (if k' = k then Some v else dict_get d k')"
  by (induction d) (auto simp: dict_get_def)

lemma dict_set_fresh: "k \<notin> set (keys d) \<Longrightarrow> dict_set k v d = d @ [(k, v)]"
  by (induction d) (auto simp: keys_def)

lemma fold_dict_set_fresh:
  "distinct (keys items) \<Longrightarrow> set (keys items) \<inter> set (keys acc) = {} \<Longrightarrow>
   fold (\<lambda>item. dict_set (fst item) (f item)) items acc = acc @ map (\<lambda>item. (fst item, f item)) items"
proof (induction items arbitrary: acc)
  case Nil
  show ?case by simp
next
  case (Cons item items)
  have fresh: "fst item \<notin> set (keys acc)" using Cons.prems(2) by (auto simp: keys_def)
  have "set (keys items) \<inter> set (keys (acc @ [(fst item, f item)])) = {}"
    using Cons.prems by (auto simp: keys_def)
  with Cons.IH[of "acc @ [(fst item, f item)]"] Cons.prems(1) fresh
  show ?case by (simp add: dict_set_fresh keys_def)
qed

lemma fold_dict_set_nil:
  "distinct (keys items) \<Longrightarrow>
   fold (\<lambda>item. dict_set (fst item) (f item)) items [] = map (\<lambda>item. (fst item, f item)) items"
  using fold_dict_set_fresh[of items "[]" f] by (simp add: keys_def)

lemma dict_get_map_items:
  "distinct (keys items) \<Longrightarrow> item \<in> set items \<Longrightarrow>
   dict_get (map (\<lambda>item. (fst item, f item)) items) (fst item) = Some (f item)"
  unfolding dict_get_def keys_def
  by (induction items) (auto simp: rev_image_eqI)

lemma keys_map_items: "keys (map (\<lambda>item. (fst item, f item)) items) = keys items"
  by (simp add: keys_def comp_def)

subsection \<open>Version tracking: proofs\<close>

lemma cameo_step_eq:
  "cameo_step sha clock prev item (cur, n, c) =
     (dict_set (fst item) (tracked sha (clock (fst item)) REQUIREMENT CAMEO prev (fst item) (snd item)) cur,
      n + (if is_new prev item then 1 else 0),
      c + (if is_changed sha prev item then 1 else 0))"
  by (cases item)
     (simp add: cameo_step_def tracked_def is_new_def is_changed_def split: option.splits)

lemma fold_cameo_step:
  "fold (cameo_step sha clock prev) items (cur, n, c) =
     (fold (\<lambda>item. dict_set (fst item)
              (tracked sha (clock (fst item)) REQUIREMENT CAMEO prev (fst item) (snd item))) items cur,
      n + length (filter (is_new prev) items),
      c + length (filter (is_changed sha prev) items))"
  by (induction items arbitrary: cur n c) (simp_all add: cameo_step_eq)

lemma cameo_loop_eq:
  assumes "distinct (keys nodes)"
  shows "cameo_loop sha clock prev nodes =
     (tracked_versions sha clock REQUIREMENT CAMEO prev nodes,
      length (filter (is_new prev) nodes),
      length (filter (is_changed sha prev) nodes))"
  by (simp add: cameo_loop_def fold_cameo_step fold_dict_set_nil assms tracked_versions_def)

lemma version_id_tracked:
  "version_id (tracked sha now atype tl' prev aid data) = compute_artifact_hash sha data"
  by (simp add: tracked_def create_artifact_version_def split: option.splits)

lemma dict_get_tracked_versions:
  "distinct (keys nodes) \<Longrightarrow> item \<in> set nodes \<Longrightarrow>
   dict_get (tracked_versions sha clock atype tl' prev nodes) (fst item)
     = Some (tracked sha (clock (fst item)) atype tl' prev (fst item) (snd item))"
  unfolding tracked_versions_def
  by (rule dict_get_map_items[where f = "\<lambda>item. tracked sha (clock (fst item)) atype tl' prev (fst item) (snd item)"])

lemma keys_tracked_versions: "keys (tracked_versions sha clock atype tl' prev nodes) = keys nodes"
  by (simp add: tracked_versions_def keys_def comp_def)

lemma tracked_versions_follow:
  assumes "distinct (keys nodes)"
  shows "records_follow sha clock (artifact_type_value atype) (tool_value tl') prev nodes
           (tracked_versions sha clock atype tl' prev nodes)"
  unfolding records_follow_def
proof
  fix item assume "item \<in> set nodes"
  from dict_get_tracked_versions[OF assms this, of sha clock atype tl' prev]
  show "case dict_get prev (fst item) of
          None \<Rightarrow>
            dict_get (tracked_versions sha clock atype tl' prev nodes) (fst item) =
              Some \<lparr>artifact_id = fst item,
                    version_id = compute_artifact_hash sha (snd item),
                    artifact_type = artifact_type_value atype, tool = tool_value tl',
                    timestamp = clock (fst item),
                    parent_version_id = None,
                    snapshot = Some (dumps (snd item))\<rparr>
        | Some p \<Rightarrow>
            if version_id p = compute_artifact_hash sha (snd item)
            then dict_get (tracked_versions sha clock atype tl' prev nodes) (fst item) = Some p
            else dict_get (tracked_versions sha clock atype tl' prev nodes) (fst item) =
              Some \<lparr>artifact_id = fst item,
                    version_id = compute_artifact_hash sha (snd item),
                    artifact_type = artifact_type_value atype, tool = tool_value tl',
                    timestamp = clock (fst item),
                    parent_version_id = Some (version_id p),
                    snapshot = Some (dumps (snd item))\<rparr>"
    by (simp add: tracked_def create_artifact_version_def split: option.splits)
qed

lemma up_to_date_tracked:
  assumes "distinct (keys nodes)"
  shows "up_to_date sha nodes (tracked_versions sha clock atype tl' prev nodes)"
  unfolding up_to_date_def
proof (intro conjI ballI)
  show "keys (tracked_versions sha clock atype tl' prev nodes) = keys nodes"
    by (rule keys_tracked_versions)
next
  fix item assume "item \<in> set nodes"
  from dict_get_tracked_versions[OF assms this, of sha clock atype tl' prev]
  show "is_unchanged sha (tracked_versions sha clock atype tl' prev nodes) item"
    by (simp add: is_unchanged_def version_id_tracked)
qed

lemma dict_rebuild: "distinct (keys d) \<Longrightarrow> map (\<lambda>k. (k, the (dict_get d k))) (keys d) = d"
proof (induction d)
  case Nil
  show ?case by (simp add: keys_def)
next
  case (Cons kv d)
  from Cons.prems have fresh: "fst kv \<notin> set (keys d)" by (simp add: keys_def)
  have "map (\<lambda>k. (k, the (dict_get (kv # d) k))) (keys d) = map (\<lambda>k. (k, the (dict_get d k))) (keys d)"
  proof (intro map_cong refl)
    fix k assume "k \<in> set (keys d)"
    with fresh have "k \<noteq> fst kv" by blast
    then show "(k, the (dict_get (kv # d) k)) = (k, the (dict_get d k))"
      by (cases kv) (simp add: dict_get_def)
  qed
  with Cons show ?case by (cases kv) (simp add: keys_def dict_get_def)
qed

lemma up_to_date_again:
  assumes dist: "distinct (keys nodes)" and up: "up_to_date sha nodes cur"
  shows "tracked_versions sha clock atype tl' cur nodes = cur"
    and "filter (is_new cur) nodes = []"
    and "filter (is_changed sha cur) nodes = []"
    and "filter (\<lambda>item. \<not> is_unchanged sha cur item) nodes = []"
proof -
  from up have k: "keys cur = keys nodes" and un: "\<And>item. item \<in> set nodes \<Longrightarrow> is_unchanged sha cur item"
    by (simp_all add: up_to_date_def)
  have t: "tracked sha (clock (fst item)) atype tl' cur (fst item) (snd item)
             = the (dict_get cur (fst item))" if "item \<in> set nodes" for item
    using un[OF that] by (simp add: is_unchanged_def tracked_def split: option.splits)
  have "tracked_versions sha clock atype tl' cur nodes
          = map (\<lambda>item. (fst item, the (dict_get cur (fst item)))) nodes"
    unfolding tracked_versions_def using t by (intro map_cong) simp_all
  also have "\<dots> = map (\<lambda>k. (k, the (dict_get cur k))) (keys nodes)"
    by (simp add: keys_def comp_def)
  also have "\<dots> = cur"
    using dict_rebuild[of cur] dist k by simp
  finally show "tracked_versions sha clock atype tl' cur nodes = cur" .
  have nn: "\<not> is_new cur item \<and> \<not> is_changed sha cur item" if "item \<in> set nodes" for item
    using un[OF that] by (simp add: is_new_def is_changed_def is_unchanged_def split: option.splits)
  show "filter (is_new cur) nodes = []"
    using nn by (simp add: filter_empty_conv)
  show "filter (is_changed sha cur) nodes = []"
    using nn by (simp add: filter_empty_conv)
  show "filter (\<lambda>item. \<not> is_unchanged sha cur item) nodes = []"
    using un by (simp add: filter_empty_conv)
qed

lemma cameo_run:
  assumes "distinct (keys nodes)" "load store = Inr prev"
  shows "track_cameo_requirements sha clock (Some nodes) store =
     Inr (save (tracked_versions sha clock REQUIREMENT CAMEO prev nodes),
          tracked_versions sha clock REQUIREMENT CAMEO prev nodes,
          length (filter (is_new prev) nodes), length (filter (is_changed sha prev) nodes))"
  using assms by (simp add: track_cameo_requirements_def cameo_loop_eq)

lemma cameo_rerun:
  assumes "distinct (keys nodes)" "up_to_date sha nodes cur"
  shows "track_cameo_requirements sha clock (Some nodes) (save cur) = Inr (save cur, cur, 0, 0)"
  using cameo_run[OF assms(1), of "save cur" cur sha clock] up_to_date_again[OF assms]
  by (simp add: save_def)

lemma simulink_step_eq:
  "simulink_step sha clock prev item (cur, al, n, c) =
     (dict_set (fst item) (tracked sha (clock (fst item)) MODEL SIMULINK prev (fst item) (snd item)) cur,
      (if is_unchanged sha prev item then al
       else dict_set (fst item)
              (tracked sha (clock (fst item)) MODEL SIMULINK prev (fst item) (snd item)) al),
      n + (if is_new prev item then 1 else 0),
      c + (if is_changed sha prev item then 1 else 0))"
  by (cases item)
     (auto simp: simulink_step_def tracked_def is_new_def is_changed_def is_unchanged_def Let_def
       split: option.splits)

lemma fold_simulink_step:
  "fold (simulink_step sha clock prev) items (cur, al, n, c) =
     (fold (\<lambda>item. dict_set (fst item)
              (tracked sha (clock (fst item)) MODEL SIMULINK prev (fst item) (snd item))) items cur,
      fold (\<lambda>item. dict_set (fst item)
              (tracked sha (clock (fst item)) MODEL SIMULINK prev (fst item) (snd item)))
        (filter (\<lambda>item. \<not> is_unchanged sha prev item) items) al,
      n + length (filter (is_new prev) items),
      c + length (filter (is_changed sha prev) items))"
  by (induction items arbitrary: cur al n c) (simp_all add: simulink_step_eq)

lemma simulink_model_eq:
  assumes "distinct (keys ns)" "load (stores m) = Inr prev" "ns \<noteq> []"
  shows "simulink_model sha clock (m, ns) (stores, al, n, c) =
     Inr (stores(m := save (tracked_versions sha clock MODEL SIMULINK prev ns)),
          fold (\<lambda>item. dict_set (fst item)
                  (tracked sha (clock (fst item)) MODEL SIMULINK prev (fst item) (snd item)))
            (filter (\<lambda>item. \<not> is_unchanged sha prev item) ns) al,
          n + length (filter (is_new prev) ns),
          c + length (filter (is_changed sha prev) ns))"
  using assms
  by (simp add: simulink_model_def fold_simulink_step fold_dict_set_nil tracked_versions_def)

lemma simulink_model_empty: "simulink_model sha clock (m, []) st = Inr st"
  by (simp add: simulink_model_def case_prod_beta)

lemma simulink_model_up_to_date:
  assumes "distinct (keys ns)" "ns \<noteq> [] \<longrightarrow> stores m = save cur \<and> up_to_date sha ns cur"
  shows "simulink_model sha clock (m, ns) (stores, al, n, c) = Inr (stores, al, n, c)"
proof (cases "ns = []")
  case True
  then show ?thesis by (simp add: simulink_model_empty)
next
  case False
  with assms(2) have st: "stores m = save cur" and up: "up_to_date sha ns cur" by simp_all
  have ld: "load (stores m) = Inr cur" by (simp add: st save_def)
  have "stores(m := save cur) = stores" using st by (simp add: fun_upd_idem)
  then show ?thesis
    using simulink_model_eq[where stores = stores and m = m and prev = cur and ns = ns
                              and sha = sha and clock = clock and al = al and n = n and c = c,
                            OF assms(1) ld False]
    by (simp add: up_to_date_again[OF assms(1) up])
qed

lemma simulink_files_rerun:
  "\<forall>f \<in> set fs. distinct (keys (snd f)) \<and>
      (snd f \<noteq> [] \<longrightarrow> (\<exists>cur. stores (fst f) = save cur \<and> up_to_date sha (snd f) cur)) \<Longrightarrow>
   simulink_files sha clock i fs (stores, al, n, c) = Inr (stores, al, n, c)"
proof (induction fs arbitrary: i)
  case Nil
  show ?case by simp
next
  case (Cons f fs)
  obtain m ns where f: "f = (m, ns)" by (cases f)
  from Cons.prems f have d: "distinct (keys ns)"
    and u: "ns \<noteq> [] \<longrightarrow> (\<exists>cur. stores m = save cur \<and> up_to_date sha ns cur)" by auto
  have "simulink_model sha (clock i) (m, ns) (stores, al, n, c) = Inr (stores, al, n, c)"
  proof (cases "ns = []")
    case True
    then show ?thesis by (simp add: simulink_model_empty)
  next
    case False
    with u obtain cur where "stores m = save cur \<and> up_to_date sha ns cur" by blast
    then show ?thesis using simulink_model_up_to_date[OF d, of stores m cur sha] by blast
  qed
  with Cons show ?case by (simp add: f)
qed

lemma load_loaded: "s \<noteq> Some Corrupt \<Longrightarrow> load s = Inr (loaded s)"
  by (cases s rule: load.cases) (simp_all add: loaded_def)

lemma load_save: "load (save cur) = Inr cur"
  by (simp add: save_def)

lemma dict_get_absent: "k \<notin> set (keys d) \<Longrightarrow> dict_get d k = None"
  by (simp add: dict_get_def keys_def map_of_eq_None_iff)

lemma count_new_cong:
  "\<forall>f \<in> set fs. stores' (fst f) = stores (fst f) \<Longrightarrow> count_new stores' fs = count_new stores fs"
  unfolding count_new_def by (rule arg_cong[where f = sum_list], rule map_cong) simp_all

lemma count_changed_cong:
  "\<forall>f \<in> set fs. stores' (fst f) = stores (fst f) \<Longrightarrow>
   count_changed sha stores' fs = count_changed sha stores fs"
  unfolding count_changed_def by (rule arg_cong[where f = sum_list], rule map_cong) simp_all

lemma simulink_model_cases:
  assumes d: "distinct (keys ns)" and ok: "stores m \<noteq> Some Corrupt"
  shows "\<exists>al'. simulink_model sha clock (m, ns) (stores, al, n, c) =
           Inr (if ns = [] then stores
                else stores(m := save (tracked_versions sha clock MODEL SIMULINK (loaded (stores m)) ns)),
                al',
                n + length (filter (is_new (loaded (stores m))) ns),
                c + length (filter (is_changed sha (loaded (stores m))) ns))"
proof (cases "ns = []")
  case True
  then show ?thesis by (simp add: simulink_model_empty)
next
  case False
  from simulink_model_eq[where stores = stores and m = m and prev = "loaded (stores m)" and ns = ns
         and sha = sha and clock = clock and al = al and n = n and c = c,
         OF d load_loaded[OF ok] False] False
  show ?thesis by simp
qed

lemma simulink_files_first:
  assumes "distinct (map fst fs)"
    and "\<forall>f \<in> set fs. distinct (keys (snd f)) \<and> stores (fst f) \<noteq> Some Corrupt"
  shows "\<exists>stores' al'.
           simulink_files sha clock i fs (stores, al, n, c) =
             Inr (stores', al', n + count_new stores fs, c + count_changed sha stores fs) \<and>
           (\<forall>f \<in> set fs.
              if snd f = [] then stores' (fst f) = stores (fst f)
              else \<exists>k. stores' (fst f) =
                     save (tracked_versions sha (clock k) MODEL SIMULINK (loaded (stores (fst f))) (snd f))) \<and>
           (\<forall>m. m \<notin> fst ` set fs \<longrightarrow> stores' m = stores m)"
  using assms
proof (induction fs arbitrary: stores al n c i)
  case Nil
  show ?case by (simp add: count_new_def count_changed_def)
next
  case (Cons f fs)
  obtain m ns where f: "f = (m, ns)" by (cases f)
  from Cons.prems f have d: "distinct (keys ns)" and ok: "stores m \<noteq> Some Corrupt"
    and fresh: "m \<notin> fst ` set fs" and dist: "distinct (map fst fs)"
    and rest: "\<forall>g \<in> set fs. distinct (keys (snd g)) \<and> stores (fst g) \<noteq> Some Corrupt"
    by auto
  define tv where "tv = tracked_versions sha (clock i) MODEL SIMULINK (loaded (stores m)) ns"
  define stores1 where "stores1 = (if ns = [] then stores else stores(m := save tv))"
  define n1 where "n1 = n + length (filter (is_new (loaded (stores m))) ns)"
  define c1 where "c1 = c + length (filter (is_changed sha (loaded (stores m))) ns)"
  from simulink_model_cases[where stores = stores and m = m and ns = ns and sha = sha
         and clock = "clock i" and al = al and n = n and c = c, OF d ok]
  obtain al1 where step: "simulink_model sha (clock i) (m, ns) (stores, al, n, c) = Inr (stores1, al1, n1, c1)"
    unfolding stores1_def tv_def n1_def c1_def by blast
  have same: "\<forall>g \<in> set fs. stores1 (fst g) = stores (fst g)"
    using fresh by (auto simp: stores1_def)
  have same_out: "\<And>k. k \<noteq> m \<Longrightarrow> stores1 k = stores k"
    by (simp add: stores1_def)
  have rest1: "\<forall>g \<in> set fs. distinct (keys (snd g)) \<and> stores1 (fst g) \<noteq> Some Corrupt"
    using rest same by simp
  from Cons.IH[where stores = stores1 and al = al1 and n = n1 and c = c1 and i = "Suc i",
               OF dist rest1]
  obtain stores' al' where
    run: "simulink_files sha clock (Suc i) fs (stores1, al1, n1, c1) =
            Inr (stores', al', n1 + count_new stores1 fs, c1 + count_changed sha stores1 fs)"
    and each: "\<forall>g \<in> set fs.
              if snd g = [] then stores' (fst g) = stores1 (fst g)
              else \<exists>k. stores' (fst g) =
                     save (tracked_versions sha (clock k) MODEL SIMULINK (loaded (stores1 (fst g))) (snd g))"
    and out: "\<forall>k. k \<notin> fst ` set fs \<longrightarrow> stores' k = stores1 k"
    by blast
  have cn: "n1 + count_new stores1 fs = n + count_new stores (f # fs)"
    using count_new_cong[OF same] by (simp add: n1_def f count_new_def)
  have cc: "c1 + count_changed sha stores1 fs = c + count_changed sha stores (f # fs)"
    using count_changed_cong[OF same, of sha] by (simp add: c1_def f count_changed_def)
  have m': "stores' m = stores1 m" using out fresh by simp
  have "simulink_files sha clock i (f # fs) (stores, al, n, c) =
             Inr (stores', al', n + count_new stores (f # fs), c + count_changed sha stores (f # fs))"
    using step run cn cc by (simp add: f)
  moreover have "\<forall>g \<in> set (f # fs).
              if snd g = [] then stores' (fst g) = stores (fst g)
              else \<exists>k. stores' (fst g) =
                     save (tracked_versions sha (clock k) MODEL SIMULINK (loaded (stores (fst g))) (snd g))"
  proof
    fix g assume "g \<in> set (f # fs)"
    then consider "g = f" | "g \<in> set fs" by auto
    then show "if snd g = [] then stores' (fst g) = stores (fst g)
              else \<exists>k. stores' (fst g) =
                     save (tracked_versions sha (clock k) MODEL SIMULINK (loaded (stores (fst g))) (snd g))"
    proof cases
      case 1
      then show ?thesis using m' by (auto simp: f stores1_def tv_def)
    next
      case 2
      with each same show ?thesis by (auto split: if_splits)
    qed
  qed
  moreover have "\<forall>k. k \<notin> fst ` set (f # fs) \<longrightarrow> stores' k = stores k"
    using out same_out by (simp add: f)
  ultimately show ?case by blast
qed

lemma last_graph_Nil: "last_graph m [] = None"
  by (simp add: last_graph_def)

lemma last_graph_Cons:
  "last_graph m (f # fs) =
     (case last_graph m fs of
        Some ns \<Rightarrow> Some ns
      | None \<Rightarrow> if fst f = m \<and> snd f \<noteq> [] then Some (snd f) else None)"
  by (simp add: last_graph_def split: list.splits)

lemma simulink_files_last:
  assumes "\<forall>f \<in> set fs. distinct (keys (snd f)) \<and> stores (fst f) \<noteq> Some Corrupt"
  shows "\<exists>stores' al' n' c'.
           simulink_files sha clock i fs (stores, al, n, c) = Inr (stores', al', n', c') \<and>
           (\<forall>m. case last_graph m fs of
                  None \<Rightarrow> stores' m = stores m
                | Some ns \<Rightarrow> \<exists>cur. stores' m = save cur \<and> keys cur = keys ns)"
  using assms
proof (induction fs arbitrary: stores al n c i)
  case Nil
  show ?case by (simp add: last_graph_Nil)
next
  case (Cons f fs)
  obtain m ns where f: "f = (m, ns)" by (cases f)
  from Cons.prems f have d: "distinct (keys ns)" and ok: "stores m \<noteq> Some Corrupt"
    and rest: "\<forall>g \<in> set fs. distinct (keys (snd g)) \<and> stores (fst g) \<noteq> Some Corrupt"
    by auto
  define tv where "tv = tracked_versions sha (clock i) MODEL SIMULINK (loaded (stores m)) ns"
  define stores1 where "stores1 = (if ns = [] then stores else stores(m := save tv))"
  from simulink_model_cases[where stores = stores and m = m and ns = ns and sha = sha
         and clock = "clock i" and al = al and n = n and c = c, OF d ok]
  obtain al1 n1 c1 where step: "simulink_model sha (clock i) (m, ns) (stores, al, n, c) = Inr (stores1, al1, n1, c1)"
    unfolding stores1_def tv_def by blast
  have rest1: "\<forall>g \<in> set fs. distinct (keys (snd g)) \<and> stores1 (fst g) \<noteq> Some Corrupt"
    using rest by (auto simp: stores1_def save_def)
  from Cons.IH[where stores = stores1 and al = al1 and n = n1 and c = c1 and i = "Suc i",
               OF rest1]
  obtain stores' al' n' c' where
    run: "simulink_files sha clock (Suc i) fs (stores1, al1, n1, c1) = Inr (stores', al', n', c')"
    and each: "\<forall>k. case last_graph k fs of
                  None \<Rightarrow> stores' k = stores1 k
                | Some ns \<Rightarrow> \<exists>cur. stores' k = save cur \<and> keys cur = keys ns"
    by blast
  have "simulink_files sha clock i (f # fs) (stores, al, n, c) = Inr (stores', al', n', c')"
    using step run by (simp add: f)
  moreover have "\<forall>k. case last_graph k (f # fs) of
                  None \<Rightarrow> stores' k = stores k
                | Some ns \<Rightarrow> \<exists>cur. stores' k = save cur \<and> keys cur = keys ns"
  proof
    fix k
    show "case last_graph k (f # fs) of
                  None \<Rightarrow> stores' k = stores k
                | Some ns \<Rightarrow> \<exists>cur. stores' k = save cur \<and> keys cur = keys ns"
    proof (cases "last_graph k fs")
      case (Some ns')
      with each[rule_format, of k] show ?thesis by (simp add: last_graph_Cons)
    next
      case None
      with each[rule_format, of k] have k: "stores' k = stores1 k" by simp
      show ?thesis
      proof (cases "m = k \<and> ns \<noteq> []")
        case True
        then have "stores' k = save tv \<and> keys tv = keys ns"
          using k by (simp add: stores1_def tv_def keys_tracked_versions)
        then show ?thesis using None True by (auto simp: last_graph_Cons f)
      next
        case False
        then have "stores' k = stores k" using k by (auto simp: stores1_def)
        then show ?thesis using None False by (auto simp: last_graph_Cons f)
      qed
    qed
  qed
  ultimately show ?case by blast
qed

lemma simulink_files_append:
  "simulink_files sha clock i (xs @ ys) st =
     (case simulink_files sha clock i xs st of
        Inl failure \<Rightarrow> Inl failure
      | Inr st' \<Rightarrow> simulink_files sha clock (i + length xs) ys st')"
  by (induction xs arbitrary: i st) (simp_all split: sum.splits)

lemma simulink_model_corrupt:
  "ns \<noteq> [] \<Longrightarrow> stores m = Some Corrupt \<Longrightarrow>
   simulink_model sha clock (m, ns) (stores, al, n, c) = Inl (StoreError, stores)"
  by (simp add: simulink_model_def)

lemma distinct_keys_filter: "distinct (keys items) \<Longrightarrow> distinct (keys (filter P items))"
  by (simp add: keys_def distinct_map_filter)

lemma dict_get_fold_set_out:
  "k \<notin> set (keys items) \<Longrightarrow>
   dict_get (fold (\<lambda>item. dict_set (fst item) (f item)) items al) k = dict_get al k"
  by (induction items arbitrary: al) (simp_all add: keys_def dict_get_set)

lemma dict_get_fold_set_in:
  "distinct (keys items) \<Longrightarrow> item \<in> set items \<Longrightarrow>
   dict_get (fold (\<lambda>item. dict_set (fst item) (f item)) items al) (fst item) = Some (f item)"
proof (induction items arbitrary: al)
  case Nil
  then show ?case by simp
next
  case (Cons x xs)
  from Cons.prems have fresh: "fst x \<notin> set (keys xs)" and d: "distinct (keys xs)"
    by (simp_all add: keys_def)
  show ?case
  proof (cases "item = x")
    case True
    then show ?thesis
      using dict_get_fold_set_out[OF fresh, of f "dict_set (fst x) (f x) al"]
      by (simp add: dict_get_set)
  next
    case False
    with Cons.prems have "item \<in> set xs" by simp
    from Cons.IH[OF d this] show ?thesis by simp
  qed
qed

lemma same_key_same_item:
  "distinct (keys d) \<Longrightarrow> a \<in> set d \<Longrightarrow> b \<in> set d \<Longrightarrow> fst a = fst b \<Longrightarrow> a = b"
  unfolding keys_def by (metis eq_key_imp_eq_value prod.collapse)

lemma emitted_follow_fold:
  assumes d: "distinct (keys nodes)"
  shows "emitted_follow sha prev nodes (tracked_versions sha clock atype tl' prev nodes) al
           (fold (\<lambda>item. dict_set (fst item)
                    (tracked sha (clock (fst item)) atype tl' prev (fst item) (snd item)))
              (filter (\<lambda>item. \<not> is_unchanged sha prev item) nodes) al)"
  unfolding emitted_follow_def
proof
  fix item assume mem: "item \<in> set nodes"
  let ?P = "\<lambda>item. \<not> is_unchanged sha prev item"
  let ?f = "\<lambda>item. tracked sha (clock (fst item)) atype tl' prev (fst item) (snd item)"
  show "dict_get (fold (\<lambda>item. dict_set (fst item) (?f item)) (filter ?P nodes) al) (fst item) =
          (if is_unchanged sha prev item then dict_get al (fst item)
           else dict_get (tracked_versions sha clock atype tl' prev nodes) (fst item))"
  proof (cases "is_unchanged sha prev item")
    case True
    have "fst item \<notin> set (keys (filter ?P nodes))"
    proof
      assume "fst item \<in> set (keys (filter ?P nodes))"
      then obtain b where b: "b \<in> set nodes" "?P b" "fst b = fst item"
        by (auto simp: keys_def)
      from same_key_same_item[OF d b(1) mem b(3)] b(2) True show False by simp
    qed
    from dict_get_fold_set_out[OF this, of ?f al] True show ?thesis by simp
  next
    case False
    with mem have "item \<in> set (filter ?P nodes)" by simp
    from dict_get_fold_set_in[OF distinct_keys_filter[OF d] this, of ?f al]
      dict_get_tracked_versions[OF d mem, of sha clock atype tl' prev] False
    show ?thesis by simp
  qed
qed

lemma emitted_outside:
  assumes "k \<notin> set (keys nodes)"
  shows "dict_get (fold (\<lambda>item. dict_set (fst item) (f item)) (filter P nodes) al) k = dict_get al k"
proof -
  from assms have "k \<notin> set (keys (filter P nodes))" by (auto simp: keys_def)
  then show ?thesis by (rule dict_get_fold_set_out)
qed

lemma cameo_tracking:
  assumes dist: "distinct (keys nodes)" and ld: "load store = Inr prev"
  shows "\<exists>cur. track_cameo_requirements sha clock (Some nodes) store =
             Inr (save cur, cur, length (filter (is_new prev) nodes),
                  length (filter (is_changed sha prev) nodes))
         \<and> keys cur = keys nodes
         \<and> records_follow sha clock ''requirement'' ''cameo'' prev nodes cur
         \<and> track_cameo_requirements sha clock' (Some nodes) (save cur) = Inr (save cur, cur, 0, 0)"
proof -
  let ?cur = "tracked_versions sha clock REQUIREMENT CAMEO prev nodes"
  have "track_cameo_requirements sha clock (Some nodes) store =
             Inr (save ?cur, ?cur, length (filter (is_new prev) nodes),
                  length (filter (is_changed sha prev) nodes))"
    by (rule cameo_run[OF dist ld])
  moreover have "keys ?cur = keys nodes" by (rule keys_tracked_versions)
  moreover have "records_follow sha clock ''requirement'' ''cameo'' prev nodes ?cur"
    using tracked_versions_follow[OF dist, of sha clock REQUIREMENT CAMEO prev] by simp
  moreover have "track_cameo_requirements sha clock' (Some nodes) (save ?cur) = Inr (save ?cur, ?cur, 0, 0)"
    by (rule cameo_rerun[OF dist up_to_date_tracked[OF dist]])
  ultimately show ?thesis by blast
qed

lemma simulink_tracking:
  assumes dist: "distinct (keys nodes)" and ld: "load store = Inr prev" and ne: "nodes \<noteq> []"
  shows "\<exists>cur emitted.
           simulink_model sha clock (m, nodes) (stores(m := store), al, n, c) =
             Inr (stores(m := save cur), emitted,
                  n + length (filter (is_new prev) nodes),
                  c + length (filter (is_changed sha prev) nodes))
         \<and> keys cur = keys nodes
         \<and> records_follow sha clock ''model'' ''simulink'' prev nodes cur
         \<and> emitted_follow sha prev nodes cur al emitted
         \<and> (\<forall>k. k \<notin> set (keys nodes) \<longrightarrow> dict_get emitted k = dict_get al k)
         \<and> simulink_model sha clock' (m, nodes) (stores(m := save cur), al', n', c') =
             Inr (stores(m := save cur), al', n', c')"
proof -
  let ?cur = "tracked_versions sha clock MODEL SIMULINK prev nodes"
  let ?f = "\<lambda>item. tracked sha (clock (fst item)) MODEL SIMULINK prev (fst item) (snd item)"
  let ?em = "fold (\<lambda>item. dict_set (fst item) (?f item))
               (filter (\<lambda>item. \<not> is_unchanged sha prev item) nodes) al"
  have ld': "load ((stores(m := store)) m) = Inr prev" using ld by simp
  have "simulink_model sha clock (m, nodes) (stores(m := store), al, n, c) =
             Inr (stores(m := save ?cur), ?em,
                  n + length (filter (is_new prev) nodes),
                  c + length (filter (is_changed sha prev) nodes))"
    using simulink_model_eq[where stores = "stores(m := store)" and m = m and prev = prev
        and ns = nodes and sha = sha and clock = clock and al = al and n = n and c = c,
        OF dist ld' ne]
    by simp
  moreover have "keys ?cur = keys nodes" by (rule keys_tracked_versions)
  moreover have "records_follow sha clock ''model'' ''simulink'' prev nodes ?cur"
    using tracked_versions_follow[OF dist, of sha clock MODEL SIMULINK prev] by simp
  moreover have "emitted_follow sha prev nodes ?cur al ?em"
    by (rule emitted_follow_fold[OF dist])
  moreover have "\<forall>k. k \<notin> set (keys nodes) \<longrightarrow> dict_get ?em k = dict_get al k"
    using emitted_outside[where nodes = nodes and f = ?f and al = al] by blast
  moreover have "simulink_model sha clock' (m, nodes) (stores(m := save ?cur), al', n', c') =
             Inr (stores(m := save ?cur), al', n', c')"
    using simulink_model_up_to_date[where stores = "stores(m := save ?cur)" and m = m
        and ns = nodes and cur = ?cur and sha = sha and clock = clock' and al = al' and n = n'
        and c = c', OF dist] up_to_date_tracked[OF dist, of sha clock MODEL SIMULINK prev]
    by simp
  ultimately show ?thesis by blast
qed

lemma simulink_run_tracking:
  assumes names: "distinct (map fst fs)"
    and each: "\<forall>f \<in> set fs. distinct (keys (snd f)) \<and> stores0 (fst f) \<noteq> Some Corrupt"
  shows "\<exists>stores' emitted.
           track_simulink_blocks sha clks (Some fs) stores0 =
             Inr (stores', emitted, count_new stores0 fs, count_changed sha stores0 fs)
         \<and> (\<forall>f \<in> set fs. snd f \<noteq> [] \<longrightarrow>
              (\<exists>k cur. stores' (fst f) = save cur \<and> keys cur = keys (snd f)
                 \<and> records_follow sha (clks k) ''model'' ''simulink''
                      (loaded (stores0 (fst f))) (snd f) cur))
         \<and> (\<forall>m. m \<notin> fst ` set fs \<longrightarrow> stores' m = stores0 m)
         \<and> track_simulink_blocks sha clks' (Some fs) stores' = Inr (stores', [], 0, 0)"
proof -
  from simulink_files_first[OF names each, of sha clks 0 "[]" 0 0]
  obtain stores' al' where
    run: "simulink_files sha clks 0 fs (stores0, [], 0, 0) =
            Inr (stores', al', count_new stores0 fs, count_changed sha stores0 fs)"
    and saved: "\<forall>f \<in> set fs.
              if snd f = [] then stores' (fst f) = stores0 (fst f)
              else \<exists>k. stores' (fst f) =
                     save (tracked_versions sha (clks k) MODEL SIMULINK (loaded (stores0 (fst f))) (snd f))"
    and out: "\<forall>m. m \<notin> fst ` set fs \<longrightarrow> stores' m = stores0 m"
    by auto
  have first: "track_simulink_blocks sha clks (Some fs) stores0 =
             Inr (stores', al', count_new stores0 fs, count_changed sha stores0 fs)"
  proof (cases "fs = []")
    case True
    with run show ?thesis by (auto simp: track_simulink_blocks_def)
  next
    case False
    with run show ?thesis by (simp add: track_simulink_blocks_def)
  qed
  have rec: "\<forall>f \<in> set fs. snd f \<noteq> [] \<longrightarrow>
              (\<exists>k cur. stores' (fst f) = save cur \<and> keys cur = keys (snd f)
                 \<and> records_follow sha (clks k) ''model'' ''simulink''
                      (loaded (stores0 (fst f))) (snd f) cur)"
  proof (intro ballI impI)
    fix f assume f: "f \<in> set fs" and ne: "snd f \<noteq> []"
    from bspec[OF saved f] ne obtain k where
      k: "stores' (fst f) =
            save (tracked_versions sha (clks k) MODEL SIMULINK (loaded (stores0 (fst f))) (snd f))"
      by (simp split: if_splits) blast
    from each f have d: "distinct (keys (snd f))" by simp
    from tracked_versions_follow[OF d, of sha "clks k" MODEL SIMULINK "loaded (stores0 (fst f))"]
      k keys_tracked_versions[of sha "clks k" MODEL SIMULINK "loaded (stores0 (fst f))" "snd f"]
    show "\<exists>k cur. stores' (fst f) = save cur \<and> keys cur = keys (snd f)
                 \<and> records_follow sha (clks k) ''model'' ''simulink''
                      (loaded (stores0 (fst f))) (snd f) cur"
      by auto
  qed
  have up: "\<forall>f \<in> set fs. distinct (keys (snd f)) \<and>
      (snd f \<noteq> [] \<longrightarrow> (\<exists>cur. stores' (fst f) = save cur \<and> up_to_date sha (snd f) cur))"
  proof
    fix f assume f: "f \<in> set fs"
    from each f have d: "distinct (keys (snd f))" by simp
    from bspec[OF saved f] up_to_date_tracked[OF d, of sha _ MODEL SIMULINK]
    show "distinct (keys (snd f)) \<and>
      (snd f \<noteq> [] \<longrightarrow> (\<exists>cur. stores' (fst f) = save cur \<and> up_to_date sha (snd f) cur))"
      using d by (auto split: if_splits)
  qed
  have again: "track_simulink_blocks sha clks' (Some fs) stores' = Inr (stores', [], 0, 0)"
    using simulink_files_rerun[OF up, of clks' 0 "[]" 0 0]
    by (simp add: track_simulink_blocks_def)
  from first rec out again show ?thesis by blast
qed

lemma dumps_name:
  "ch \<in> {CHR ''a'', CHR ''b'', CHR ''c'', CHR ''x'', CHR ''y''} \<Longrightarrow>
   dumps (JObj [(''name'', JStr [ch])]) = snapshot_text [ch]"
  by (auto simp: snapshot_text_def encode_str_def escape_char_def)

lemma old_not_snapshot: "''old'' \<noteq> snapshot_text nm"
  by (simp add: snapshot_text_def)

lemmas example_defs =
  example_graph_def example_store_def expected_current_def expected_blocks_def
  expected_emitted_def all_new_blocks_def all_new_requirements_def new_record_def
  stored_R2_def example_sha_def clock1_def clock2_def clocks_def clocks2_def
  shared_files_def shared_emitted_def shared_store_def
  compute_artifact_hash_def create_artifact_version_def dumps_name old_not_snapshot
  dict_get_def

lemma example_cameo_run:
  "track_cameo_requirements example_sha clock1 (Some example_graph) (Some (Versions example_store))
     = Inr (save expected_current, expected_current, 1, 1)"
  by (simp add: track_cameo_requirements_def cameo_loop_def cameo_step_def example_defs
      del: dumps.simps)

lemma example_model_run:
  "simulink_model example_sha clock1 (''m'', example_graph)
       (example_stores(''m'' := Some (Versions example_store)), [], 0, 0)
     = Inr (example_stores(''m'' := save expected_blocks), expected_emitted, 1, 1)"
  by (simp add: simulink_model_def simulink_step_def example_defs Let_def del: dumps.simps)

lemma example_blocks_run:
  "track_simulink_blocks example_sha clocks (Some [(''m'', example_graph), (''e'', [])])
       example_stores
     = Inr (example_stores(''m'' := save expected_blocks), expected_emitted, 1, 1)"
  by (simp add: track_simulink_blocks_def simulink_model_def simulink_step_def example_defs
      example_stores_def Let_def del: dumps.simps)

lemma save_eq: "save a = save b \<longleftrightarrow> a = b"
  by (simp add: save_def)

text \<open>
  Claim C1, as amended. The store loads to \<open>prev\<close> and the ids of a graph are distinct, as
  the keys of a dictionary are. A run of the Cameo tracker returns and saves \<open>cur\<close>, with as
  many new artifacts counted as have no stored version and as many changed ones as are
  stored under another hash. For every artifact of the graph: with no stored version,
  \<open>cur\<close> holds a fresh record whose parent is null; with a stored version of another hash,
  \<open>cur\<close> holds a fresh record whose parent is the id of the stored version; with a stored
  version of the same hash, \<open>cur\<close> holds the stored record itself. A fresh record has the id
  of the artifact, the hash of its snapshot as version id, the type and tool of the
  tracker, the time of the clock and the serialised snapshot. A second run over the same
  graph against the saved store counts nothing new, nothing changed, and saves the same
  store. The same holds for each model of the Simulink tracker, from any state of the
  accumulators: \<open>all_versions\<close> receives the fresh records and nothing for an artifact that is
  carried over. For a whole run of the Simulink tracker over connectivity files with
  pairwise distinct model names and loadable stores, the counts are those of all the
  files against the stores before the run, the store of every model with nodes holds the
  records described above, and a second run over the same files against the stores that
  the first one left emits no record and counts nothing.
\<close>

theorem version_tracker_cases:
  assumes dist: "distinct (keys nodes)" and ld: "load store = Inr prev"
    and names: "distinct (map fst fs)"
    and each: "\<forall>f \<in> set fs. distinct (keys (snd f)) \<and> stores0 (fst f) \<noteq> Some Corrupt"
  shows "(\<exists>cur. track_cameo_requirements sha clock (Some nodes) store =
             Inr (save cur, cur, length (filter (is_new prev) nodes),
                  length (filter (is_changed sha prev) nodes))
         \<and> keys cur = keys nodes
         \<and> records_follow sha clock ''requirement'' ''cameo'' prev nodes cur
         \<and> track_cameo_requirements sha clock' (Some nodes) (save cur) = Inr (save cur, cur, 0, 0))
    \<and> (nodes \<noteq> [] \<longrightarrow>
       (\<exists>cur emitted.
           simulink_model sha clock (m, nodes) (stores(m := store), al, n, c) =
             Inr (stores(m := save cur), emitted,
                  n + length (filter (is_new prev) nodes),
                  c + length (filter (is_changed sha prev) nodes))
         \<and> keys cur = keys nodes
         \<and> records_follow sha clock ''model'' ''simulink'' prev nodes cur
         \<and> emitted_follow sha prev nodes cur al emitted
         \<and> (\<forall>k. k \<notin> set (keys nodes) \<longrightarrow> dict_get emitted k = dict_get al k)
         \<and> simulink_model sha clock' (m, nodes) (stores(m := save cur), al', n', c') =
             Inr (stores(m := save cur), al', n', c')))
    \<and> (\<exists>stores' emitted.
           track_simulink_blocks sha clks (Some fs) stores0 =
             Inr (stores', emitted, count_new stores0 fs, count_changed sha stores0 fs)
         \<and> (\<forall>f \<in> set fs. snd f \<noteq> [] \<longrightarrow>
              (\<exists>k cur. stores' (fst f) = save cur \<and> keys cur = keys (snd f)
                 \<and> records_follow sha (clks k) ''model'' ''simulink''
                      (loaded (stores0 (fst f))) (snd f) cur))
         \<and> (\<forall>m. m \<notin> fst ` set fs \<longrightarrow> stores' m = stores0 m)
         \<and> track_simulink_blocks sha clks' (Some fs) stores' = Inr (stores', [], 0, 0))"
proof (intro conjI impI)
  show "\<exists>cur. track_cameo_requirements sha clock (Some nodes) store =
             Inr (save cur, cur, length (filter (is_new prev) nodes),
                  length (filter (is_changed sha prev) nodes))
         \<and> keys cur = keys nodes
         \<and> records_follow sha clock ''requirement'' ''cameo'' prev nodes cur
         \<and> track_cameo_requirements sha clock' (Some nodes) (save cur) = Inr (save cur, cur, 0, 0)"
    by (rule cameo_tracking[OF dist ld])
next
  assume "nodes \<noteq> []"
  then show "\<exists>cur emitted.
           simulink_model sha clock (m, nodes) (stores(m := store), al, n, c) =
             Inr (stores(m := save cur), emitted,
                  n + length (filter (is_new prev) nodes),
                  c + length (filter (is_changed sha prev) nodes))
         \<and> keys cur = keys nodes
         \<and> records_follow sha clock ''model'' ''simulink'' prev nodes cur
         \<and> emitted_follow sha prev nodes cur al emitted
         \<and> (\<forall>k. k \<notin> set (keys nodes) \<longrightarrow> dict_get emitted k = dict_get al k)
         \<and> simulink_model sha clock' (m, nodes) (stores(m := save cur), al', n', c') =
             Inr (stores(m := save cur), al', n', c')"
    by (rule simulink_tracking[OF dist ld])
next
  show "\<exists>stores' emitted.
           track_simulink_blocks sha clks (Some fs) stores0 =
             Inr (stores', emitted, count_new stores0 fs, count_changed sha stores0 fs)
         \<and> (\<forall>f \<in> set fs. snd f \<noteq> [] \<longrightarrow>
              (\<exists>k cur. stores' (fst f) = save cur \<and> keys cur = keys (snd f)
                 \<and> records_follow sha (clks k) ''model'' ''simulink''
                      (loaded (stores0 (fst f))) (snd f) cur))
         \<and> (\<forall>m. m \<notin> fst ` set fs \<longrightarrow> stores' m = stores0 m)
         \<and> track_simulink_blocks sha clks' (Some fs) stores' = Inr (stores', [], 0, 0)"
    by (rule simulink_run_tracking[OF names each])
qed

theorem version_tracker_cases_witness:
  "distinct (keys example_graph) \<and> load (Some (Versions example_store)) = Inr example_store
   \<and> example_graph \<noteq> []
   \<and> distinct (map fst [(''m'', example_graph), (''e'', [])])
   \<and> example_stores ''m'' \<noteq> Some Corrupt \<and> example_stores ''e'' \<noteq> Some Corrupt
   \<and> track_cameo_requirements example_sha clock1 (Some example_graph)
         (Some (Versions example_store))
       = Inr (save expected_current, expected_current, 1, 1)
   \<and> records_follow example_sha clock1 ''requirement'' ''cameo'' example_store example_graph
         expected_current
   \<and> track_cameo_requirements example_sha clock2 (Some example_graph) (save expected_current)
       = Inr (save expected_current, expected_current, 0, 0)
   \<and> simulink_model example_sha clock1 (''m'', example_graph)
         (example_stores(''m'' := Some (Versions example_store)), [], 0, 0)
       = Inr (example_stores(''m'' := save expected_blocks), expected_emitted, 1, 1)
   \<and> records_follow example_sha clock1 ''model'' ''simulink'' example_store example_graph
         expected_blocks
   \<and> emitted_follow example_sha example_store example_graph expected_blocks [] expected_emitted
   \<and> simulink_model example_sha clock2 (''m'', example_graph)
         (example_stores(''m'' := save expected_blocks), [], 0, 0)
       = Inr (example_stores(''m'' := save expected_blocks), [], 0, 0)
   \<and> track_simulink_blocks example_sha clocks (Some [(''m'', example_graph), (''e'', [])])
         example_stores
       = Inr (example_stores(''m'' := save expected_blocks), expected_emitted, 1, 1)
   \<and> track_simulink_blocks example_sha clocks2 (Some [(''m'', example_graph), (''e'', [])])
         (example_stores(''m'' := save expected_blocks))
       = Inr (example_stores(''m'' := save expected_blocks), [], 0, 0)"
proof -
  have dist: "distinct (keys example_graph)"
    by (simp add: example_graph_def keys_def)
  have ld: "load (Some (Versions example_store)) = Inr example_store"
    by simp
  have ne: "example_graph \<noteq> []"
    by (simp add: example_graph_def)
  have names: "distinct (map fst [(''m'', example_graph), (''e'', [])])"
    by simp
  have ok: "example_stores ''m'' \<noteq> Some Corrupt" "example_stores ''e'' \<noteq> Some Corrupt"
    by (simp_all add: example_stores_def)
  have each: "\<forall>f \<in> set [(''m'', example_graph), (''e'', [])].
      distinct (keys (snd f)) \<and> example_stores (fst f) \<noteq> Some Corrupt"
    using dist ok by (simp add: keys_def)
  note inst = version_tracker_cases[where sha = example_sha and clock = clock1
      and clock' = clock2 and stores = example_stores and m = "''m''" and al = "[]"
      and n = 0 and c = 0 and al' = "[]" and n' = 0 and c' = 0 and clks = clocks
      and clks' = clocks2, OF dist ld names each]
  from inst obtain cur where
    c1: "track_cameo_requirements example_sha clock1 (Some example_graph)
           (Some (Versions example_store)) =
         Inr (save cur, cur, length (filter (is_new example_store) example_graph),
              length (filter (is_changed example_sha example_store) example_graph))"
    and c2: "records_follow example_sha clock1 ''requirement'' ''cameo'' example_store
               example_graph cur"
    and c3: "track_cameo_requirements example_sha clock2 (Some example_graph) (save cur) =
             Inr (save cur, cur, 0, 0)"
    by blast
  from c1 have cur: "cur = expected_current" by (simp add: example_cameo_run)
  from inst ne obtain blk emitted where
    s1: "simulink_model example_sha clock1 (''m'', example_graph)
           (example_stores(''m'' := Some (Versions example_store)), [], 0, 0) =
         Inr (example_stores(''m'' := save blk), emitted,
              0 + length (filter (is_new example_store) example_graph),
              0 + length (filter (is_changed example_sha example_store) example_graph))"
    and s2: "records_follow example_sha clock1 ''model'' ''simulink'' example_store
               example_graph blk"
    and s3: "emitted_follow example_sha example_store example_graph blk [] emitted"
    and s4: "simulink_model example_sha clock2 (''m'', example_graph)
               (example_stores(''m'' := save blk), [], 0, 0) =
             Inr (example_stores(''m'' := save blk), [], 0, 0)"
    by blast
  from s1 have "(example_stores(''m'' := save blk)) ''m''
                  = (example_stores(''m'' := save expected_blocks)) ''m''"
    and em: "emitted = expected_emitted"
    by (simp_all add: example_model_run)
  then have blk: "blk = expected_blocks" by (simp add: save_eq)
  from inst obtain stores' emitted' where
    t1: "track_simulink_blocks example_sha clocks (Some [(''m'', example_graph), (''e'', [])])
           example_stores =
         Inr (stores', emitted', count_new example_stores [(''m'', example_graph), (''e'', [])],
              count_changed example_sha example_stores [(''m'', example_graph), (''e'', [])])"
    and t2: "track_simulink_blocks example_sha clocks2
               (Some [(''m'', example_graph), (''e'', [])]) stores' = Inr (stores', [], 0, 0)"
    by blast
  from t1 have st: "stores' = example_stores(''m'' := save expected_blocks)"
    by (simp add: example_blocks_run)
  show ?thesis
    using dist ld ne names ok example_cameo_run c2 c3 example_model_run s2 s3 s4
      example_blocks_run t2
    unfolding cur blk em st by simp
qed

text \<open>
  Claim C1 as stated fails for the re-run: two connectivity files under one model name
  write one version file, which after the run holds the records of the second file
  only. A second run over the same two files against that store counts the same two
  blocks as new again and emits their records again.
\<close>

theorem shared_store_rerun_counterexample:
  "track_simulink_blocks example_sha clocks (Some shared_files) no_stores
     = Inr (no_stores(''M'' := Some (Versions shared_store)), shared_emitted, 2, 0)
   \<and> track_simulink_blocks example_sha clocks (Some shared_files)
         (no_stores(''M'' := Some (Versions shared_store)))
     = Inr (no_stores(''M'' := Some (Versions shared_store)), shared_emitted, 2, 0)"
  by (simp add: track_simulink_blocks_def simulink_model_def simulink_step_def example_defs
      no_stores_def save_def Let_def del: dumps.simps)

lemma is_new_empty: "filter (is_new []) nodes = nodes"
  by (simp add: is_new_def dict_get_def)

lemma is_changed_empty: "filter (is_changed sha []) nodes = []"
  by (simp add: is_changed_def dict_get_def)

lemma blocks_fail_after:
  assumes ne: "nodes \<noteq> []"
    and earlier: "simulink_files sha clks 0 earlier (stores0, [], 0, 0) = Inr (stores1, al1, n1, c1)"
    and bad: "stores1 m = Some Corrupt"
  shows "track_simulink_blocks sha clks (Some (earlier @ (m, nodes) # later_files)) stores0
           = Inl (StoreError, stores1)"
  using simulink_model_corrupt[where ns = nodes and stores = stores1 and m = m and sha = sha
      and clock = "clks (length earlier)" and al = al1 and n = n1 and c = c1, OF ne bad] earlier
  by (simp add: track_simulink_blocks_def simulink_files_append)

text \<open>
  Claim C4, as amended. When the version file does not exist, loading gives the empty
  history, the run completes and every artifact gets a record whose parent is null,
  counted as new. When the file exists and cannot be decoded, loading raises and the
  tracker does not catch it: \<open>track_cameo_requirements\<close>, the iteration for the Simulink
  model and \<open>track_simulink_blocks\<close> return no records and no counts, and the version file
  that failed to load is left as it was. In the Simulink tracker the version files of the
  models processed before the failing one have been rewritten by then and stay so.
\<close>

theorem store_failure_propagates:
  assumes dist: "distinct (keys nodes)"
  shows "load None = Inr []
    \<and> (\<exists>cur. track_cameo_requirements sha clock (Some nodes) None =
               Inr (save cur, cur, length nodes, 0)
         \<and> keys cur = keys nodes
         \<and> records_follow sha clock ''requirement'' ''cameo'' [] nodes cur)
    \<and> (nodes \<noteq> [] \<longrightarrow>
         (\<exists>cur emitted.
             simulink_model sha clock (m, nodes) (stores(m := None), al, n, c) =
               Inr (stores(m := save cur), emitted, n + length nodes, c)
           \<and> keys cur = keys nodes
           \<and> records_follow sha clock ''model'' ''simulink'' [] nodes cur
           \<and> emitted_follow sha [] nodes cur al emitted))
    \<and> load (Some Corrupt) = Inl StoreError
    \<and> track_cameo_requirements sha clock (Some nodes) (Some Corrupt)
         = Inl (StoreError, Some Corrupt)
    \<and> (nodes \<noteq> [] \<longrightarrow>
         simulink_model sha clock (m, nodes) (stores(m := Some Corrupt), al, n, c)
           = Inl (StoreError, stores(m := Some Corrupt)))
    \<and> (nodes \<noteq> []
         \<and> simulink_files sha clks 0 earlier (stores0, [], 0, 0) = Inr (stores1, al1, n1, c1)
         \<and> stores1 m = Some Corrupt \<longrightarrow>
         track_simulink_blocks sha clks (Some (earlier @ (m, nodes) # later_files)) stores0
           = Inl (StoreError, stores1))"
proof (intro conjI impI)
  show "load None = Inr []" by simp
  show "load (Some Corrupt) = Inl StoreError" by simp
  show "track_cameo_requirements sha clock (Some nodes) (Some Corrupt)
         = Inl (StoreError, Some Corrupt)"
    by (simp add: track_cameo_requirements_def)
  show "\<exists>cur. track_cameo_requirements sha clock (Some nodes) None =
               Inr (save cur, cur, length nodes, 0)
         \<and> keys cur = keys nodes
         \<and> records_follow sha clock ''requirement'' ''cameo'' [] nodes cur"
    using cameo_tracking[OF dist, of None "[]" sha clock clock]
    by (auto simp: is_new_empty is_changed_empty)
next
  assume ne: "nodes \<noteq> []"
  show "\<exists>cur emitted.
             simulink_model sha clock (m, nodes) (stores(m := None), al, n, c) =
               Inr (stores(m := save cur), emitted, n + length nodes, c)
           \<and> keys cur = keys nodes
           \<and> records_follow sha clock ''model'' ''simulink'' [] nodes cur
           \<and> emitted_follow sha [] nodes cur al emitted"
    using simulink_tracking[where store = None and prev = "[]" and nodes = nodes and sha = sha
        and clock = clock and m = m and stores = stores and al = al and n = n and c = c
        and clock' = clock and al' = al and n' = n and c' = c, OF dist _ ne]
    by (auto simp: is_new_empty is_changed_empty)
next
  assume ne: "nodes \<noteq> []"
  show "simulink_model sha clock (m, nodes) (stores(m := Some Corrupt), al, n, c)
           = Inl (StoreError, stores(m := Some Corrupt))"
    using simulink_model_corrupt[where ns = nodes and stores = "stores(m := Some Corrupt)"
        and m = m and sha = sha and clock = clock and al = al and n = n and c = c, OF ne]
    by simp
next
  assume "nodes \<noteq> []
         \<and> simulink_files sha clks 0 earlier (stores0, [], 0, 0) = Inr (stores1, al1, n1, c1)
         \<and> stores1 m = Some Corrupt"
  then show "track_simulink_blocks sha clks (Some (earlier @ (m, nodes) # later_files)) stores0
           = Inl (StoreError, stores1)"
    using blocks_fail_after[of nodes sha clks earlier stores0 stores1 al1 n1 c1 m later_files]
    by simp
qed

lemma example_missing_run:
  "track_cameo_requirements example_sha clock1 (Some example_graph) None
     = Inr (save all_new_requirements, all_new_requirements, 3, 0)"
  by (simp add: track_cameo_requirements_def cameo_loop_def cameo_step_def example_defs
      del: dumps.simps)

lemma example_earlier_run:
  "simulink_files example_sha clocks 0 [(''A'', example_graph)]
       (no_stores(''B'' := Some Corrupt), [], 0, 0)
     = Inr ((no_stores(''B'' := Some Corrupt))(''A'' := save all_new_blocks),
            all_new_blocks, 3, 0)"
  by (simp add: simulink_model_def simulink_step_def example_defs no_stores_def Let_def
      del: dumps.simps)

theorem store_failure_propagates_witness:
  "distinct (keys example_graph) \<and> example_graph \<noteq> []
   \<and> track_cameo_requirements example_sha clock1 (Some example_graph) None
       = Inr (save all_new_requirements, all_new_requirements, 3, 0)
   \<and> records_follow example_sha clock1 ''requirement'' ''cameo'' [] example_graph
         all_new_requirements
   \<and> track_cameo_requirements example_sha clock1 (Some example_graph) (Some Corrupt)
       = Inl (StoreError, Some Corrupt)
   \<and> simulink_model example_sha clock1 (''B'', example_graph)
         (example_stores(''B'' := Some Corrupt), [], 0, 0)
       = Inl (StoreError, example_stores(''B'' := Some Corrupt))
   \<and> simulink_files example_sha clocks 0 [(''A'', example_graph)]
         (no_stores(''B'' := Some Corrupt), [], 0, 0)
       = Inr ((no_stores(''B'' := Some Corrupt))(''A'' := save all_new_blocks),
              all_new_blocks, 3, 0)
   \<and> ((no_stores(''B'' := Some Corrupt))(''A'' := save all_new_blocks)) ''B'' = Some Corrupt
   \<and> track_simulink_blocks example_sha clocks
         (Some ([(''A'', example_graph)] @ (''B'', example_graph) # [(''C'', example_graph)]))
         (no_stores(''B'' := Some Corrupt))
       = Inl (StoreError, (no_stores(''B'' := Some Corrupt))(''A'' := save all_new_blocks))"
proof -
  have dist: "distinct (keys example_graph)"
    by (simp add: example_graph_def keys_def)
  have ne: "example_graph \<noteq> []"
    by (simp add: example_graph_def)
  have bad: "((no_stores(''B'' := Some Corrupt))(''A'' := save all_new_blocks)) ''B'' = Some Corrupt"
    by simp
  note inst = store_failure_propagates[where nodes = example_graph and sha = example_sha
      and clock = clock1 and m = "''B''" and stores = example_stores and al = "[]" and n = 0
      and c = 0 and clks = clocks and earlier = "[(''A'', example_graph)]"
      and ?stores0.0 = "no_stores(''B'' := Some Corrupt)"
      and ?stores1.0 = "(no_stores(''B'' := Some Corrupt))(''A'' := save all_new_blocks)"
      and ?al1.0 = all_new_blocks and ?n1.0 = 3 and ?c1.0 = 0
      and later_files = "[(''C'', example_graph)]", OF dist]
  from inst obtain cur where
    c1: "track_cameo_requirements example_sha clock1 (Some example_graph) None =
           Inr (save cur, cur, length example_graph, 0)"
    and c2: "records_follow example_sha clock1 ''requirement'' ''cameo'' [] example_graph cur"
    by blast
  from c1 have cur: "cur = all_new_requirements" by (simp add: example_missing_run)
  from inst have c3: "track_cameo_requirements example_sha clock1 (Some example_graph) (Some Corrupt)
       = Inl (StoreError, Some Corrupt)" by blast
  from inst ne have c4: "simulink_model example_sha clock1 (''B'', example_graph)
         (example_stores(''B'' := Some Corrupt), [], 0, 0)
       = Inl (StoreError, example_stores(''B'' := Some Corrupt))" by blast
  from inst ne example_earlier_run bad
  have c5: "track_simulink_blocks example_sha clocks
         (Some ([(''A'', example_graph)] @ (''B'', example_graph) # [(''C'', example_graph)]))
         (no_stores(''B'' := Some Corrupt))
       = Inl (StoreError, (no_stores(''B'' := Some Corrupt))(''A'' := save all_new_blocks))"
    by blast
  show ?thesis
    using dist ne example_missing_run c2 c3 c4 example_earlier_run bad c5
    unfolding cur by simp
qed

text \<open>
  Claim C4 as stated fails: with a corrupt version file neither tracker returns a result,
  where the claim has the run complete with every artifact treated as new.
\<close>

theorem corrupt_store_counterexample:
  "track_cameo_requirements example_sha clock1 (Some example_graph) (Some Corrupt)
     = Inl (StoreError, Some Corrupt)
   \<and> track_simulink_blocks example_sha clocks (Some [(''m'', example_graph)]) corrupt_stores
       = Inl (StoreError, corrupt_stores)"
  by (simp add: track_cameo_requirements_def track_simulink_blocks_def simulink_model_def
      corrupt_stores_def example_graph_def)

lemma cameo_missing_graph: "track_cameo_requirements sha clock None store = Inr (store, [], 0, 0)"
  by (simp add: track_cameo_requirements_def)

lemma blocks_missing_dir: "track_simulink_blocks sha clks None stores0 = Inr (stores0, [], 0, 0)"
  by (simp add: track_simulink_blocks_def)

lemma blocks_last:
  assumes each: "\<forall>f \<in> set fs. distinct (keys (snd f)) \<and> stores0 (fst f) \<noteq> Some Corrupt"
  shows "\<exists>stores' emitted n c.
           track_simulink_blocks sha clks (Some fs) stores0 = Inr (stores', emitted, n, c)
         \<and> (\<forall>m. case last_graph m fs of
                  None \<Rightarrow> stores' m = stores0 m
                | Some ns \<Rightarrow>
                    \<exists>cur. stores' m = save cur \<and> keys cur = keys ns
                      \<and> (\<forall>aid. aid \<notin> set (keys ns) \<longrightarrow> dict_get cur aid = None))"
proof -
  from simulink_files_last[OF each, of sha clks 0 "[]" 0 0]
  obtain stores' al' n' c' where
    run: "simulink_files sha clks 0 fs (stores0, [], 0, 0) = Inr (stores', al', n', c')"
    and lastp: "\<forall>m. case last_graph m fs of
                  None \<Rightarrow> stores' m = stores0 m
                | Some ns \<Rightarrow> \<exists>cur. stores' m = save cur \<and> keys cur = keys ns"
    by blast
  have first: "track_simulink_blocks sha clks (Some fs) stores0 = Inr (stores', al', n', c')"
  proof (cases "fs = []")
    case True
    with run show ?thesis by (auto simp: track_simulink_blocks_def)
  next
    case False
    with run show ?thesis by (simp add: track_simulink_blocks_def)
  qed
  have "\<forall>m. case last_graph m fs of
                  None \<Rightarrow> stores' m = stores0 m
                | Some ns \<Rightarrow>
                    \<exists>cur. stores' m = save cur \<and> keys cur = keys ns
                      \<and> (\<forall>aid. aid \<notin> set (keys ns) \<longrightarrow> dict_get cur aid = None)"
  proof
    fix m
    from lastp[rule_format, of m]
    show "case last_graph m fs of
                  None \<Rightarrow> stores' m = stores0 m
                | Some ns \<Rightarrow>
                    \<exists>cur. stores' m = save cur \<and> keys cur = keys ns
                      \<and> (\<forall>aid. aid \<notin> set (keys ns) \<longrightarrow> dict_get cur aid = None)"
      by (cases "last_graph m fs") (auto simp: dict_get_absent)
  qed
  with first show ?thesis by blast
qed

text \<open>
  Claim C10, as amended. A run of the Cameo tracker over an existing graph file saves a
  store whose ids are exactly the ids of the graph, so a stored id that is absent from
  the graph has no record afterwards; without a graph file the store is left as it was.
  After a run of the Simulink tracker over any connectivity files whose stores load, the
  store of every model name holds exactly the ids of the last connectivity file with that
  name whose nodes dictionary is not empty, whatever it held before and whatever the
  earlier files with that name held; a model name with no such file keeps its store as
  it was, as every store does when there is no models directory.
\<close>

theorem saved_store_ids:
  assumes dist: "distinct (keys nodes)" and ld: "load store = Inr prev"
    and each: "\<forall>f \<in> set fs. distinct (keys (snd f)) \<and> stores0 (fst f) \<noteq> Some Corrupt"
  shows "(\<exists>cur n c.
            track_cameo_requirements sha clock (Some nodes) store = Inr (save cur, cur, n, c)
          \<and> keys cur = keys nodes
          \<and> (\<forall>aid. aid \<notin> set (keys nodes) \<longrightarrow> dict_get cur aid = None))
    \<and> track_cameo_requirements sha clock None store = Inr (store, [], 0, 0)
    \<and> (\<exists>stores' emitted n c.
           track_simulink_blocks sha clks (Some fs) stores0 = Inr (stores', emitted, n, c)
         \<and> (\<forall>m. case last_graph m fs of
                  None \<Rightarrow> stores' m = stores0 m
                | Some ns \<Rightarrow>
                    \<exists>cur. stores' m = save cur \<and> keys cur = keys ns
                      \<and> (\<forall>aid. aid \<notin> set (keys ns) \<longrightarrow> dict_get cur aid = None)))
    \<and> track_simulink_blocks sha clks None stores0 = Inr (stores0, [], 0, 0)"
proof (intro conjI)
  from cameo_tracking[OF dist ld, of sha clock clock]
  show "\<exists>cur n c.
            track_cameo_requirements sha clock (Some nodes) store = Inr (save cur, cur, n, c)
          \<and> keys cur = keys nodes
          \<and> (\<forall>aid. aid \<notin> set (keys nodes) \<longrightarrow> dict_get cur aid = None)"
    by (metis dict_get_absent)
  show "track_cameo_requirements sha clock None store = Inr (store, [], 0, 0)"
    by (rule cameo_missing_graph)
  show "\<exists>stores' emitted n c.
           track_simulink_blocks sha clks (Some fs) stores0 = Inr (stores', emitted, n, c)
         \<and> (\<forall>m. case last_graph m fs of
                  None \<Rightarrow> stores' m = stores0 m
                | Some ns \<Rightarrow>
                    \<exists>cur. stores' m = save cur \<and> keys cur = keys ns
                      \<and> (\<forall>aid. aid \<notin> set (keys ns) \<longrightarrow> dict_get cur aid = None))"
    by (rule blocks_last[OF each])
  show "track_simulink_blocks sha clks None stores0 = Inr (stores0, [], 0, 0)"
    by (rule blocks_missing_dir)
qed

lemma example_shared_run:
  "track_simulink_blocks example_sha clocks (Some shared_files) example_stores
     = Inr (example_stores(''M'' := save shared_store), shared_emitted, 2, 0)"
  by (simp add: track_simulink_blocks_def simulink_model_def simulink_step_def example_defs
      example_stores_def save_def Let_def del: dumps.simps)

theorem saved_store_ids_witness:
  "distinct (keys example_graph) \<and> load (Some (Versions example_store)) = Inr example_store
   \<and> distinct (keys [(''X'', JObj [(''name'', JStr ''x'')])])
   \<and> distinct (keys [(''Y'', JObj [(''name'', JStr ''y'')])])
   \<and> example_stores ''M'' \<noteq> Some Corrupt
   \<and> track_cameo_requirements example_sha clock1 (Some example_graph)
         (Some (Versions example_store))
       = Inr (save expected_current, expected_current, 1, 1)
   \<and> keys example_store = [''R2'', ''R3'', ''R9'']
   \<and> keys expected_current = [''R1'', ''R2'', ''R3'']
   \<and> dict_get expected_current ''R9'' = None
   \<and> track_simulink_blocks example_sha clocks (Some shared_files) example_stores
       = Inr (example_stores(''M'' := save shared_store), shared_emitted, 2, 0)
   \<and> example_stores ''M'' = Some (Versions example_store)
   \<and> last_graph ''M'' shared_files = Some [(''Y'', JObj [(''name'', JStr ''y'')])]
   \<and> keys shared_store = [''Y'']
   \<and> dict_get shared_store ''X'' = None
   \<and> dict_get shared_store ''R9'' = None
   \<and> last_graph ''m'' shared_files = None
   \<and> (example_stores(''M'' := save shared_store)) ''m'' = example_stores ''m''"
proof -
  have dist: "distinct (keys example_graph)"
    by (simp add: example_graph_def keys_def)
  have ld: "load (Some (Versions example_store)) = Inr example_store"
    by simp
  have dx: "distinct (keys [(''X'', JObj [(''name'', JStr ''x'')])])"
    and dy: "distinct (keys [(''Y'', JObj [(''name'', JStr ''y'')])])"
    by (simp_all add: keys_def)
  have ok: "example_stores ''M'' \<noteq> Some Corrupt" "example_stores ''M'' = Some (Versions example_store)"
    by (simp_all add: example_stores_def)
  have each: "\<forall>f \<in> set shared_files. distinct (keys (snd f)) \<and> example_stores (fst f) \<noteq> Some Corrupt"
    using dx dy ok by (simp add: shared_files_def)
  have lg: "last_graph ''M'' shared_files = Some [(''Y'', JObj [(''name'', JStr ''y'')])]"
    "last_graph ''m'' shared_files = None"
    by (simp_all add: last_graph_def shared_files_def)
  have ks: "keys example_store = [''R2'', ''R3'', ''R9'']" "keys example_graph = [''R1'', ''R2'', ''R3'']"
    "keys [(''Y'', JObj [(''name'', JStr ''y'')])] = [''Y'']"
    by (simp_all add: keys_def example_store_def example_graph_def)
  note inst = saved_store_ids[where nodes = example_graph and sha = example_sha
      and clock = clock1 and store = "Some (Versions example_store)" and prev = example_store
      and fs = shared_files and ?stores0.0 = example_stores and clks = clocks, OF dist ld each]
  from inst obtain cur n c where
    c1: "track_cameo_requirements example_sha clock1 (Some example_graph)
           (Some (Versions example_store)) = Inr (save cur, cur, n, c)"
    and c2: "keys cur = keys example_graph"
    and c3: "\<forall>aid. aid \<notin> set (keys example_graph) \<longrightarrow> dict_get cur aid = None"
    by blast
  from c1 have cur: "cur = expected_current" by (simp add: example_cameo_run)
  from c3 have r9: "dict_get expected_current ''R9'' = None"
    unfolding cur ks by simp
  from inst obtain stores' emitted n' c' where
    t1: "track_simulink_blocks example_sha clocks (Some shared_files) example_stores
           = Inr (stores', emitted, n', c')"
    and t2: "\<forall>m. case last_graph m shared_files of
                  None \<Rightarrow> stores' m = example_stores m
                | Some ns \<Rightarrow>
                    \<exists>cur. stores' m = save cur \<and> keys cur = keys ns
                      \<and> (\<forall>aid. aid \<notin> set (keys ns) \<longrightarrow> dict_get cur aid = None)"
    by blast
  from t1 have st: "stores' = example_stores(''M'' := save shared_store)"
    by (simp add: example_shared_run)
  from t2[rule_format, of "''M''"] obtain blk where
    b: "save shared_store = save blk" "keys blk = [''Y'']"
      "\<forall>aid. aid \<notin> set [''Y''] \<longrightarrow> dict_get blk aid = None"
    unfolding st lg by (auto simp: keys_def)
  from b(1) have blk: "blk = shared_store" by (simp add: save_eq)
  from b have s1: "keys shared_store = [''Y'']" "dict_get shared_store ''X'' = None"
    "dict_get shared_store ''R9'' = None"
    unfolding blk by simp_all
  from t2[rule_format, of "''m''"]
  have s2: "(example_stores(''M'' := save shared_store)) ''m'' = example_stores ''m''"
    unfolding st lg by simp
  show ?thesis
    using dist ld dx dy ok example_cameo_run ks c2 r9 example_shared_run lg s1 s2
    unfolding cur by simp
qed

text \<open>
  Claim C10 as stated fails: a run over a model without nodes completes and the store
  still holds the records R2, R3 and R9, none of which is in the input of the run.
\<close>

theorem skipped_model_store_counterexample:
  "track_simulink_blocks example_sha clocks (Some [(''m'', [])]) example_stores
     = Inr (example_stores, [], 0, 0)
   \<and> example_stores ''m'' = Some (Versions example_store)
   \<and> keys example_store = [''R2'', ''R3'', ''R9'']"
  by (simp add: track_simulink_blocks_def simulink_model_def example_stores_def
      example_store_def keys_def)

section \<open>Proofs: the version hash\<close>

lemma distinct_keys_sort_key:
  assumes "distinct (map fst xs)"
  shows "distinct (map fst (sort_key fst xs))"
proof (rule card_distinct)
  have "card (set (map fst (sort_key fst xs))) = card (set (map fst xs))" by simp
  also have "\<dots> = length (map fst xs)" using assms by (rule distinct_card)
  finally show "card (set (map fst (sort_key fst xs))) = length (map fst (sort_key fst xs))"
    by simp
qed

lemma sorted_keys_equal:
  assumes "distinct (map fst xs)" "distinct (map fst ys)" "set (map fst xs) = set (map fst ys)"
  shows "map fst (sort_key fst xs) = map fst (sort_key fst ys)"
proof (rule sorted_distinct_set_unique)
  show "sorted (map fst (sort_key fst xs))" "sorted (map fst (sort_key fst ys))"
    by (rule sorted_sort_key)+
  show "distinct (map fst (sort_key fst xs))" "distinct (map fst (sort_key fst ys))"
    using assms by (simp_all add: distinct_keys_sort_key)
  show "set (map fst (sort_key fst xs)) = set (map fst (sort_key fst ys))"
    using assms(3) by simp
qed

lemma map_entries_equal:
  assumes "map fst xs = map fst ys"
    and "\<And>x y. x \<in> set xs \<Longrightarrow> y \<in> set ys \<Longrightarrow> fst x = fst y \<Longrightarrow> h (snd x) = h (snd y)"
  shows "map (\<lambda>(k, v). F k (h v)) xs = map (\<lambda>(k, v). F k (h v)) ys"
  using assms unfolding case_prod_beta
proof (induction xs arbitrary: ys)
  case Nil
  then show ?case by simp
next
  case (Cons x xs)
  then obtain y ys' where ys: "ys = y # ys'" by (cases ys) auto
  with Cons.prems(1) have k: "fst x = fst y" and rest: "map fst xs = map fst ys'" by simp_all
  have "h (snd x) = h (snd y)" using Cons.prems(2)[of x y] k ys by simp
  moreover have "map (\<lambda>p. F (fst p) (h (snd p))) xs = map (\<lambda>p. F (fst p) (h (snd p))) ys'"
    using Cons.IH[OF rest] Cons.prems(2) ys by simp
  ultimately show ?case using k ys by simp
qed

lemma map_items_equal:
  assumes "length xs = length ys"
    and "\<And>x y. (x, y) \<in> set (zip xs ys) \<Longrightarrow> h x = h y"
  shows "map h xs = map h ys"
  using assms by (induction xs ys rule: list_induct2) simp_all

lemma same_content_JObj:
  "same_content (JObj xs) b \<Longrightarrow> \<exists>ys. b = JObj ys"
  by (cases b) simp_all

lemma same_content_JArr:
  "same_content (JArr xs) b \<Longrightarrow> \<exists>ys. b = JArr ys"
  by (cases b) simp_all

lemma same_content_atom:
  "same_content JNull b \<Longrightarrow> b = JNull"
  "same_content (JBool x) b \<Longrightarrow> b = JBool x"
  "same_content (JInt i) b \<Longrightarrow> b = JInt i"
  "same_content (JFloat r) b \<Longrightarrow> b = JFloat r"
  "same_content (JStr s) b \<Longrightarrow> b = JStr s"
  by (cases b; simp)+

lemma dumps_same_content:
  "wf_json a \<Longrightarrow> wf_json b \<Longrightarrow> same_content a b \<Longrightarrow> dumps a = dumps b"
proof (induction a arbitrary: b rule: json.induct)
  case (JArr xs)
  from same_content_JArr[OF JArr.prems(3)] obtain ys where b: "b = JArr ys" by blast
  have len: "length xs = length ys" using JArr.prems(3) b by simp
  have "dumps x = dumps y" if "(x, y) \<in> set (zip xs ys)" for x y
  proof -
    have "x \<in> set xs" "y \<in> set ys" using that by (auto dest: set_zip_leftD set_zip_rightD)
    moreover have "same_content x y" using JArr.prems(3) b that by auto
    ultimately show ?thesis using JArr.IH[of x y] JArr.prems(1,2) b by simp
  qed
  with len have "map dumps xs = map dumps ys" by (rule map_items_equal)
  then show ?case using b by simp
next
  case (JObj xs)
  from same_content_JObj[OF JObj.prems(3)] obtain ys where b: "b = JObj ys" by blast
  have dx: "distinct (map fst xs)" and dy: "distinct (map fst ys)"
    using JObj.prems(1,2) b by simp_all
  have ks: "set (map fst xs) = set (map fst ys)" using JObj.prems(3) b by simp
  have keys_eq: "map fst (sort_key fst xs) = map fst (sort_key fst ys)"
    using dx dy ks by (rule sorted_keys_equal)
  have vals: "dumps (snd x) = dumps (snd y)"
    if "x \<in> set (sort_key fst xs)" "y \<in> set (sort_key fst ys)" "fst x = fst y" for x y
  proof -
    have x: "x \<in> set xs" and y: "y \<in> set ys" using that by simp_all
    have "same_content (snd x) (snd y)" using JObj.prems(3) b x y that(3) by auto
    moreover have "wf_json (snd x)" "wf_json (snd y)" using JObj.prems(1,2) b x y by auto
    moreover have "snd x \<in> Basic_BNFs.snds x" by (cases x) simp
    ultimately show ?thesis using JObj.IH[OF x, of "snd x" "snd y"] by simp
  qed
  have "map (\<lambda>(k, v). encode_str k @ '': '' @ dumps v) (sort_key fst xs)
      = map (\<lambda>(k, v). encode_str k @ '': '' @ dumps v) (sort_key fst ys)"
    using map_entries_equal[OF keys_eq, of dumps "\<lambda>k d. encode_str k @ '': '' @ d"] vals
    by blast
  then show ?case using b by simp
qed (auto dest: same_content_atom)

text \<open>
  Claim C2. Two snapshots that are equal as dictionaries, whatever the insertion order of
  their keys at any depth, have the same canonical serialisation, hence the same digest
  under every digest function, and the version records made from them carry the same
  \<open>version_id\<close>, whatever the time, the artifact id, the type, the tool and the parent.
\<close>

theorem hash_key_order_independent:
  assumes "wf_json a" "wf_json b" "same_content a b"
  shows "compute_artifact_hash sha a = compute_artifact_hash sha b
       \<and> version_id (create_artifact_version sha now aid a atype the_tool parent)
           = version_id (create_artifact_version sha now' aid' b atype' the_tool' parent')"
  using dumps_same_content[OF assms]
  by (simp add: compute_artifact_hash_def create_artifact_version_def)

theorem hash_key_order_independent_witness:
  "wf_json snapshot_a \<and> wf_json snapshot_b \<and> same_content snapshot_a snapshot_b \<and>
   snapshot_a \<noteq> snapshot_b \<and>
   compute_artifact_hash example_sha snapshot_a = compute_artifact_hash example_sha snapshot_b"
proof -
  have wa: "wf_json snapshot_a" and wb: "wf_json snapshot_b"
    by (simp_all add: snapshot_a_def snapshot_b_def)
  have sc: "same_content snapshot_a snapshot_b"
    by (auto simp: snapshot_a_def snapshot_b_def)
  have ne: "snapshot_a \<noteq> snapshot_b"
    by (simp add: snapshot_a_def snapshot_b_def)
  from hash_key_order_independent[OF wa wb sc, of example_sha] wa wb sc ne
  show ?thesis by simp
qed

section \<open>Proofs: the Cameo analyzer\<close>

lemma set_dict_set: "set (dict_set k v d) \<subseteq> insert (k, v) (set d)"
  by (induction d) auto

lemma dict_get_in_set: "dict_get d k = Some v \<Longrightarrow> (k, v) \<in> set d"
  by (simp add: dict_get_def map_of_SomeD)

lemma strip_last_not_space: "strip s \<noteq> [] \<Longrightarrow> \<not> is_space (last (strip s))"
proof -
  assume ne: "strip s \<noteq> []"
  let ?r = "dropWhile is_space (rev (dropWhile is_space s))"
  have r: "?r \<noteq> []" using ne by (simp add: strip_def)
  then have "\<not> is_space (hd ?r)" by (rule hd_dropWhile)
  moreover have "last (strip s) = hd ?r" using r by (simp add: strip_def last_rev)
  ultimately show ?thesis by simp
qed

lemma space_is_space: "is_space (CHR '' '')"
  by (simp add: is_space_def)

lemma ascii_digit_is_digit: "c \<in> set ''0123456789'' \<Longrightarrow> is_digit_char c"
  by (auto simp: is_digit_char_def)

lemma valid_name_properties:
  assumes "is_valid_requirement_name nm"
  shows "2 < length (strip nm)"
    and "\<not> isdigit (strip nm)"
    and "\<not> isdigit (remove_spaces (strip nm))"
    and "strip nm \<notin> set [''+'', ''-'', ''*'', ''/'', ''='', ''.'', '','']"
    and "\<not> (\<forall>c \<in> set (strip nm). c \<in> set ''0123456789'')"
    and "\<not> (\<forall>c \<in> set (strip nm). c \<in> set ''0123456789 '')"
proof -
  from assms show len: "2 < length (strip nm)" and d1: "\<not> isdigit (strip nm)"
    and d2: "\<not> isdigit (remove_spaces (strip nm))"
    and "strip nm \<notin> set [''+'', ''-'', ''*'', ''/'', ''='', ''.'', '','']"
    by (simp_all add: is_valid_requirement_name_def split: if_splits)
  from len have ne: "strip nm \<noteq> []" by auto
  show "\<not> (\<forall>c \<in> set (strip nm). c \<in> set ''0123456789'')"
  proof
    assume "\<forall>c \<in> set (strip nm). c \<in> set ''0123456789''"
    then have "list_all is_digit_char (strip nm)"
      using ascii_digit_is_digit by (auto simp: list_all_iff)
    with ne d1 show False by (simp add: isdigit_def)
  qed
  show "\<not> (\<forall>c \<in> set (strip nm). c \<in> set ''0123456789 '')"
  proof
    assume all: "\<forall>c \<in> set (strip nm). c \<in> set ''0123456789 ''"
    have "last (strip nm) \<in> set (strip nm)" using ne by simp
    moreover have "last (strip nm) \<noteq> CHR '' ''"
      using strip_last_not_space[OF ne] space_is_space by auto
    ultimately have "last (strip nm) \<in> set (remove_spaces (strip nm))"
      by (simp add: remove_spaces_def)
    then have "remove_spaces (strip nm) \<noteq> []" by auto
    moreover have "list_all is_digit_char (remove_spaces (strip nm))"
      using all ascii_digit_is_digit by (auto simp: list_all_iff remove_spaces_def)
    ultimately show False using d2 by (simp add: isdigit_def)
  qed
qed



lemma stereotype_fields_keep:
  "ed_element (stereotype_fields elem ed) = ed_element ed"
  "ed_name (stereotype_fields elem ed) = ed_name ed"
  by (simp_all add: stereotype_fields_def Let_def)

lemma entry_of_from:
  assumes "elements_from root a" and "ed_element (entry_of (elements a) k) = Some e"
  shows "e \<in> set (iter root) \<and> ed_name (entry_of (elements a) k) = Some (get_or e ''name'' [])"
proof (cases "dict_get (elements a) k")
  case None
  with assms(2) show ?thesis by (simp add: entry_of_def empty_elem_data_def)
next
  case (Some ed)
  then have "(k, ed) \<in> set (elements a)" by (rule dict_get_in_set)
  with assms Some show ?thesis by (fastforce simp: entry_of_def elements_from_def)
qed

lemma elements_from_set:
  assumes "elements_from root a"
    and "\<And>e. ed_element ed = Some e \<Longrightarrow> e \<in> set (iter root) \<and> ed_name ed = Some (get_or e ''name'' [])"
    and "elements b = dict_set k ed (elements a)"
  shows "elements_from root b"
  unfolding elements_from_def
proof (intro ballI allI impI)
  fix ke e assume ke: "ke \<in> set (elements b)" and el: "ed_element (snd ke) = Some e"
  from ke assms(3) set_dict_set[of k ed "elements a"]
  consider "ke = (k, ed)" | "ke \<in> set (elements a)" by auto
  then show "e \<in> set (iter root) \<and> ed_name (snd ke) = Some (get_or e ''name'' [])"
  proof cases
    case 1
    with el assms(2) show ?thesis by simp
  next
    case 2
    with el assms(1) show ?thesis by (simp add: elements_from_def)
  qed
qed

lemma collect_stereotype_step_requirements:
  "requirements (collect_stereotype_step elem a) = requirements a"
  by (simp add: collect_stereotype_step_def Let_def split: option.splits)

lemma collect_stereotype_step_elements:
  assumes "elements_from root a"
  shows "elements_from root (collect_stereotype_step elem a)"
proof -
  have upd: "elements_from root
      (a\<lparr>stereotype_applications := sa,
         elements := dict_set bc (stereotype_fields elem (entry_of (elements a) bc)) (elements a)\<rparr>)"
    for bc sa
    by (rule elements_from_set[OF assms, where k = bc
          and ed = "stereotype_fields elem (entry_of (elements a) bc)"])
       (simp_all add: stereotype_fields_keep entry_of_from[OF assms])
  show ?thesis
    unfolding collect_stereotype_step_def Let_def
    using assms upd by (simp split: option.splits)
qed

lemma collect_element_step_requirements:
  "requirements (collect_element_step elem a) = requirements a"
  by (simp add: collect_element_step_def Let_def split: option.splits)

lemma collect_element_step_elements:
  assumes "elements_from root a" and "elem \<in> set (iter root)"
  shows "elements_from root (collect_element_step elem a)"
proof -
  have upd: "elements_from root
      (a\<lparr>id_to_name := nmap,
         elements := dict_set xid
           ((entry_of (elements a) xid)
              \<lparr>ed_name := Some (get_or elem ''name'' []), ed_type := ty,
               ed_element := Some elem, ed_source_file := sf\<rparr>) (elements a)\<rparr>)"
    for xid nmap ty sf
    by (rule elements_from_set[OF assms(1), where k = xid
          and ed = "(entry_of (elements a) xid)
              \<lparr>ed_name := Some (get_or elem ''name'' []), ed_type := ty,
               ed_element := Some elem, ed_source_file := sf\<rparr>"])
       (simp_all add: assms(2))
  show ?thesis
    unfolding collect_element_step_def Let_def
    using assms(1) upd by (simp split: option.splits)
qed

lemma fold_stereotype_inv:
  "elements_from root a \<Longrightarrow> requirements a = [] \<Longrightarrow>
   elements_from root (fold collect_stereotype_step es a)
   \<and> requirements (fold collect_stereotype_step es a) = []"
  by (induction es arbitrary: a)
     (simp_all add: collect_stereotype_step_elements collect_stereotype_step_requirements)

lemma fold_element_inv:
  "elements_from root a \<Longrightarrow> requirements a = [] \<Longrightarrow> set es \<subseteq> set (iter root) \<Longrightarrow>
   elements_from root (fold collect_element_step es a)
   \<and> requirements (fold collect_element_step es a) = []"
  by (induction es arbitrary: a)
     (simp_all add: collect_element_step_elements collect_element_step_requirements)

lemma collected_inv:
  fixes root :: xml
  defines "a0 \<equiv> collect_all_elements root (collect_stereotype_applications root (new_analyzer :: 'd analyzer))"
  shows "elements_from root a0 \<and> requirements a0 = []"
proof -
  have 0: "elements_from root (new_analyzer :: 'd analyzer)"
    and 1: "requirements (new_analyzer :: 'd analyzer) = []"
    by (simp_all add: elements_from_def new_analyzer_def)
  have s: "elements_from root (collect_stereotype_applications root (new_analyzer :: 'd analyzer))
         \<and> requirements (collect_stereotype_applications root (new_analyzer :: 'd analyzer)) = []"
    unfolding collect_stereotype_applications_def by (rule fold_stereotype_inv[OF 0 1])
  show ?thesis
    unfolding a0_def collect_all_elements_def
    by (rule fold_element_inv) (use s in simp_all)
qed

lemma extract_requirement_step_inv:
  assumes "elements_from root a" "names_valid a" "names_from root a"
  shows "elements_from root (extract_requirement_step details item a)
       \<and> names_valid (extract_requirement_step details item a)
       \<and> names_from root (extract_requirement_step details item a)"
proof -
  obtain xid stereotype where item: "item = (xid, stereotype)" by (cases item)
  show ?thesis
  proof (cases "extract_requirement_step details item a = a")
    case True
    with assms show ?thesis by simp
  next
    case False
    then obtain ed elem req where
      ed: "dict_get (elements a) xid = Some ed" and el: "ed_element ed = Some elem"
      and valid: "is_valid_requirement_name (case ed_name ed of None \<Rightarrow> ''Unnamed Requirement'' | Some nm \<Rightarrow> nm)"
      and req: "parse_requirement_element details elem ed = Some req"
      and res: "extract_requirement_step details item a =
                  a\<lparr>requirements := dict_set (r_xmi_id req) req (requirements a)\<rparr>"
      unfolding item extract_requirement_step_def
      by (auto simp: Let_def split: option.splits if_splits)
    have nm: "r_name req = (case ed_name ed of None \<Rightarrow> ''Unnamed Requirement'' | Some nm \<Rightarrow> nm)"
      using req by (auto simp: parse_requirement_element_def Let_def split: if_splits)
    have "(xid, ed) \<in> set (elements a)" using ed by (rule dict_get_in_set)
    with assms(1) el have from_tree: "elem \<in> set (iter root)" "ed_name ed = Some (get_or elem ''name'' [])"
      by (fastforce simp: elements_from_def)+
    have sub: "set (dict_set (r_xmi_id req) req (requirements a))
        \<subseteq> insert (r_xmi_id req, req) (set (requirements a))"
      by (rule set_dict_set)
    have 1: "elements_from root (extract_requirement_step details item a)"
      using assms(1) by (simp add: res elements_from_def)
    have 2: "names_valid (extract_requirement_step details item a)"
      using assms(2) valid nm sub by (auto simp: res names_valid_def)
    have 3: "names_from root (extract_requirement_step details item a)"
      unfolding names_from_def res
    proof
      fix kr assume "kr \<in> set (requirements (a\<lparr>requirements := dict_set (r_xmi_id req) req (requirements a)\<rparr>))"
      with sub consider "kr = (r_xmi_id req, req)" | "kr \<in> set (requirements a)" by auto
      then show "\<exists>e \<in> set (iter root). r_name (snd kr) = get_or e ''name'' []"
      proof cases
        case 1
        with nm from_tree show ?thesis by auto
      next
        case 2
        with assms(3) show ?thesis by (simp add: names_from_def)
      qed
    qed
    from 1 2 3 show ?thesis by simp
  qed
qed

lemma fold_extract_inv:
  "elements_from root a \<Longrightarrow> names_valid a \<Longrightarrow> names_from root a \<Longrightarrow>
   names_valid (fold (extract_requirement_step details) items a)
   \<and> names_from root (fold (extract_requirement_step details) items a)"
proof (induction items arbitrary: a)
  case Nil
  then show ?case by simp
next
  case (Cons item items)
  from extract_requirement_step_inv[OF Cons.prems, of details item]
  show ?case using Cons.IH by simp
qed

lemma parse_requirements_inv:
  fixes details :: "xml \<Rightarrow> elem_data \<Rightarrow> 'd"
  shows "names_valid (parse_requirements details root)
       \<and> names_from root (parse_requirements details root)"
proof -
  let ?a = "collect_all_elements root (collect_stereotype_applications root (new_analyzer :: 'd analyzer))"
  have e: "elements_from root ?a" and r: "requirements ?a = []"
    using collected_inv[where ?'d = 'd, of root] by simp_all
  have v: "names_valid ?a" and f: "names_from root ?a"
    using r by (simp_all add: names_valid_def names_from_def)
  from fold_extract_inv[OF e v f, of details "stereotype_applications ?a"]
  show ?thesis by (simp add: parse_requirements_def extract_requirements_def)
qed

text \<open>
  Claim C9. Every requirement that the extractor stores, for every model and whatever the
  other fields are, has a name that passed the filter: trimmed, it is longer than two
  characters, it is not made of digits only, with or without spaces between them, and it
  is not one of the lone punctuation characters. The name is the name attribute of an
  element of the model, so no element with a rejected name becomes a requirement.
\<close>

theorem stored_requirement_names_valid:
  "\<forall>kr \<in> set (requirements (parse_requirements details root)).
     2 < length (strip (r_name (snd kr)))
   \<and> \<not> isdigit (strip (r_name (snd kr)))
   \<and> \<not> isdigit (remove_spaces (strip (r_name (snd kr))))
   \<and> \<not> (\<forall>c \<in> set (strip (r_name (snd kr))). c \<in> set ''0123456789'')
   \<and> \<not> (\<forall>c \<in> set (strip (r_name (snd kr))). c \<in> set ''0123456789 '')
   \<and> strip (r_name (snd kr)) \<notin> set [''+'', ''-'', ''*'', ''/'', ''='', ''.'', '','']
   \<and> is_valid_requirement_name (r_name (snd kr))
   \<and> (\<exists>e \<in> set (iter root). r_name (snd kr) = get_or e ''name'' [])"
proof
  fix kr assume kr: "kr \<in> set (requirements (parse_requirements details root))"
  with parse_requirements_inv[of details root]
  have v: "is_valid_requirement_name (r_name (snd kr))"
    and f: "\<exists>e \<in> set (iter root). r_name (snd kr) = get_or e ''name'' []"
    by (simp_all add: names_valid_def names_from_def)
  from valid_name_properties[OF v] v f
  show "2 < length (strip (r_name (snd kr)))
   \<and> \<not> isdigit (strip (r_name (snd kr)))
   \<and> \<not> isdigit (remove_spaces (strip (r_name (snd kr))))
   \<and> \<not> (\<forall>c \<in> set (strip (r_name (snd kr))). c \<in> set ''0123456789'')
   \<and> \<not> (\<forall>c \<in> set (strip (r_name (snd kr))). c \<in> set ''0123456789 '')
   \<and> strip (r_name (snd kr)) \<notin> set [''+'', ''-'', ''*'', ''/'', ''='', ''.'', '','']
   \<and> is_valid_requirement_name (r_name (snd kr))
   \<and> (\<exists>e \<in> set (iter root). r_name (snd kr) = get_or e ''name'' [])"
    by blast
qed


lemma requirement_model_result:
  "requirements (parse_requirements no_details requirement_model) =
     [(''r1'', \<lparr>r_xmi_id = ''r1'', r_name = ''  Brake system '', r_details = ()\<rparr>)]"
  by code_simp

theorem stored_requirement_names_valid_witness:
  "(''r1'', \<lparr>r_xmi_id = ''r1'', r_name = ''  Brake system '', r_details = ()\<rparr>)
     \<in> set (requirements (parse_requirements no_details requirement_model))
   \<and> 2 < length (strip ''  Brake system '')
   \<and> \<not> isdigit (strip ''  Brake system '')
   \<and> \<not> isdigit (remove_spaces (strip ''  Brake system ''))
   \<and> is_valid_requirement_name ''  Brake system ''"
proof -
  have mem: "(''r1'', \<lparr>r_xmi_id = ''r1'', r_name = ''  Brake system '', r_details = ()\<rparr>)
     \<in> set (requirements (parse_requirements no_details requirement_model))"
    by (simp add: requirement_model_result)
  from bspec[OF stored_requirement_names_valid[of no_details requirement_model] mem] mem
  show ?thesis by simp
qed

lemma collect_stereotype_step_shape:
  "collect_stereotype_step elem a = a \<or>
   (\<exists>bc els. collect_stereotype_step elem a =
      a\<lparr>stereotype_applications := dict_set bc ''Requirement'' (stereotype_applications a),
        elements := els\<rparr>)"
  unfolding collect_stereotype_step_def Let_def
  by (auto split: option.splits)

lemma stereotype_index_step:
  assumes "\<forall>kv \<in> set (stereotype_applications a). snd kv = ''Requirement''"
  shows "\<forall>kv \<in> set (stereotype_applications (collect_stereotype_step elem a)).
           snd kv = ''Requirement''"
proof
  fix kv assume kv: "kv \<in> set (stereotype_applications (collect_stereotype_step elem a))"
  from collect_stereotype_step_shape[of elem a]
  show "snd kv = ''Requirement''"
  proof
    assume "collect_stereotype_step elem a = a"
    with kv assms show ?thesis by simp
  next
    assume "\<exists>bc els. collect_stereotype_step elem a =
      a\<lparr>stereotype_applications := dict_set bc ''Requirement'' (stereotype_applications a),
        elements := els\<rparr>"
    then obtain bc where
      "kv \<in> set (dict_set bc ''Requirement'' (stereotype_applications a))"
      using kv by auto
    with set_dict_set[of bc "''Requirement''" "stereotype_applications a"]
    have "kv = (bc, ''Requirement'') \<or> kv \<in> set (stereotype_applications a)" by auto
    with assms show ?thesis by auto
  qed
qed

lemma stereotype_index_fold:
  "\<forall>kv \<in> set (stereotype_applications a). snd kv = ''Requirement'' \<Longrightarrow>
   \<forall>kv \<in> set (stereotype_applications (fold collect_stereotype_step es a)).
     snd kv = ''Requirement''"
proof (induction es arbitrary: a)
  case Nil
  then show ?case by simp
next
  case (Cons e es)
  from Cons.IH[OF stereotype_index_step[OF Cons.prems, of e]]
  show ?case by simp
qed

lemma stereotype_index_only_requirement:
  "\<forall>kv \<in> set (stereotype_applications (collect_stereotype_applications root new_analyzer)).
     snd kv = ''Requirement''"
  unfolding collect_stereotype_applications_def
  by (rule stereotype_index_fold) (simp add: new_analyzer_def)

text \<open>
  Claim C3 at a stereotype application \<open>DeriveReqt\<close> with the base element \<open>d1\<close>: the
  collector records nothing for \<open>d1\<close>, and the relationship \<open>d1\<close> is classified as a
  plain trace. By \<open>stereotype_index_only_requirement\<close> the index never holds another
  value than \<open>Requirement\<close>.
\<close>

theorem derive_stereotype_not_indexed:
  "stereotype_applications
     (collect_stereotype_applications derive_model (new_analyzer :: unit analyzer)) = []
   \<and> determine_relationship_type
       (collect_stereotype_applications derive_model (new_analyzer :: unit analyzer))
       derive_relationship = ''traces''"
  by code_simp

section \<open>Proofs: connections\<close>

lemma takeWhile_decimal_hash:
  "list_all is_decimal sid \<Longrightarrow> takeWhile is_decimal (sid @ CHR ''#'' # r) = sid"
  "list_all is_decimal sid \<Longrightarrow> dropWhile is_decimal (sid @ CHR ''#'' # r) = CHR ''#'' # r"
  by (induction sid) (simp_all add: is_decimal_def)

lemma takeWhile_decimal_nonempty:
  "decimal_string port \<Longrightarrow> takeWhile is_decimal (port @ rest) \<noteq> []"
  by (cases port) (simp_all add: decimal_string_def)

lemma parse_endpoint_shape:
  assumes "starts_with_shape e"
  shows "parse_endpoint (Some e) \<noteq> None"
proof -
  from assms obtain sid port rest where sid: "decimal_string sid"
    and c: "(decimal_string port \<and> (e = sid @ ''#out:'' @ port @ rest \<or> e = sid @ ''#in:'' @ port @ rest))
         \<or> e = sid @ ''#state'' @ rest"
    unfolding starts_with_shape_def by blast
  from sid have s1: "sid \<noteq> []" and s2: "list_all is_decimal sid"
    by (simp_all add: decimal_string_def)
  from c consider
      (out) "decimal_string port" "e = sid @ ''#out:'' @ port @ rest"
    | (inp) "decimal_string port" "e = sid @ ''#in:'' @ port @ rest"
    | (state) "e = sid @ ''#state'' @ rest" by blast
  then show ?thesis
  proof cases
    case out
    then show ?thesis
      using s1 takeWhile_decimal_hash[OF s2] takeWhile_decimal_nonempty[OF out(1)]
      by (simp add: parse_endpoint_def Let_def)
  next
    case inp
    then show ?thesis
      using s1 takeWhile_decimal_hash[OF s2] takeWhile_decimal_nonempty[OF inp(1)]
      by (simp add: parse_endpoint_def Let_def)
  next
    case state
    then show ?thesis
      using s1 takeWhile_decimal_hash[OF s2]
      by (simp add: parse_endpoint_def Let_def)
  qed
qed

lemma decimal_takeWhile: "takeWhile is_decimal s \<noteq> [] \<Longrightarrow> decimal_string (takeWhile is_decimal s)"
  by (simp add: decimal_string_def list_all_iff) (meson set_takeWhileD)

lemma shape_parse_endpoint:
  assumes "parse_endpoint (Some e) \<noteq> None"
  shows "starts_with_shape e"
proof -
  let ?sid = "takeWhile is_decimal e" and ?rest = "dropWhile is_decimal e"
  have e: "e = ?sid @ ?rest" by simp
  from assms have sid: "?sid \<noteq> []" by (auto simp: parse_endpoint_def Let_def split: if_splits)
  then have dsid: "decimal_string ?sid" by (rule decimal_takeWhile)
  from assms sid consider
      (out) "prefix ''#out:'' ?rest" "takeWhile is_decimal (drop 5 ?rest) \<noteq> []"
    | (inp) "prefix ''#in:'' ?rest" "takeWhile is_decimal (drop 4 ?rest) \<noteq> []"
    | (state) "prefix ''#state'' ?rest"
    by (auto simp: parse_endpoint_def Let_def split: if_splits)
  then show ?thesis
  proof cases
    case out
    then obtain r where r: "?rest = ''#out:'' @ r" by (auto simp: prefix_def)
    then have "takeWhile is_decimal r \<noteq> []" using out(2) by simp
    then have "decimal_string (takeWhile is_decimal r)" by (rule decimal_takeWhile)
    moreover have "e = ?sid @ ''#out:'' @ takeWhile is_decimal r @ dropWhile is_decimal r"
      using e r by (metis takeWhile_dropWhile_id)
    ultimately show ?thesis unfolding starts_with_shape_def using dsid by blast
  next
    case inp
    then obtain r where r: "?rest = ''#in:'' @ r" by (auto simp: prefix_def)
    then have "takeWhile is_decimal r \<noteq> []" using inp(2) by simp
    then have "decimal_string (takeWhile is_decimal r)" by (rule decimal_takeWhile)
    moreover have "e = ?sid @ ''#in:'' @ takeWhile is_decimal r @ dropWhile is_decimal r"
      using e r by (metis takeWhile_dropWhile_id)
    ultimately show ?thesis unfolding starts_with_shape_def using dsid by blast
  next
    case state
    then obtain r where r: "?rest = ''#state'' @ r" by (auto simp: prefix_def)
    then have "e = ?sid @ ''#state'' @ r" using e by metis
    then show ?thesis unfolding starts_with_shape_def using dsid by blast
  qed
qed

lemma parse_endpoint_None_iff: "parse_endpoint t = None \<longleftrightarrow> unparseable t"
proof (cases t)
  case None
  then show ?thesis by (simp add: parse_endpoint_def unparseable_def)
next
  case (Some e)
  have "parse_endpoint (Some e) = None \<longleftrightarrow> \<not> starts_with_shape e"
    using parse_endpoint_shape[of e] shape_parse_endpoint[of e] by blast
  with Some show ?thesis by (simp add: unparseable_def)
qed


lemma parse_endpoint_examples:
  "parse_endpoint (Some ''10#out:1'') = Some (''10'', ''out'', 1)"
  "parse_endpoint (Some ''20#in:1'') = Some (''20'', ''in'', 1)"
  "parse_endpoint (Some ''30#in:1'') = Some (''30'', ''in'', 1)"
  by (simp_all add: parse_endpoint_def is_decimal_def int_of_decimal_def)

lemma parse_endpoint_state:
  assumes "decimal_string sid"
  shows "parse_endpoint (Some (sid @ ''#state'')) = Some (sid, ''state'', 0)"
proof -
  from assms have s1: "sid \<noteq> []" and s2: "list_all is_decimal sid"
    by (simp_all add: decimal_string_def)
  show ?thesis
    using s1 takeWhile_decimal_hash[OF s2, of "''state''"]
    by (simp add: parse_endpoint_def Let_def)
qed

lemma branch_step_unparseable:
  "find_P b ''Dst'' = None \<Longrightarrow> branch_step sid p sg b conns = conns"
  "find_P b ''Dst'' = Some d \<Longrightarrow> unparseable (etext d) \<Longrightarrow> branch_step sid p sg b conns = conns"
  by (simp_all add: branch_step_def parse_endpoint_None_iff[symmetric])

lemma branch_step_parsed:
  "find_P b ''Dst'' = Some d \<Longrightarrow> parse_endpoint (etext d) = Some (bsid, k, bport) \<Longrightarrow>
   branch_step sid p sg b conns =
     conns @ [\<lparr>source_block = sid, source_port = p, dest_block = bsid, dest_port = bport,
               signal_name = sg, branches = None\<rparr>]"
  by (simp add: branch_step_def)

text \<open>
  Claim C7, as amended. A line whose source is \<open>10#out:1\<close>, with no destination of its own
  and two branches to \<open>20#in:1\<close> and \<open>30#in:1\<close>, adds exactly two connections, both from
  block 10, port 1, one to block 20, port 1, and one to block 30, port 1, named by the
  name child of the line itself. Source, destination and name are looked up among the
  children of the line, the destination of a branch among the children of the branch. A
  line without a source, or whose source does not start with one of the shapes, adds
  nothing; a destination of the line that does not start with one of the shapes costs only
  the connection of the line itself; a branch whose destination does not start with one
  of the shapes adds nothing. A state endpoint is read with port 0. The endpoint parser
  fails exactly on an absent text and on a text that does not start with one of the shapes.
\<close>

theorem line_connections:
  "(find_P line ''Src'' = Some s \<and> etext s = Some ''10#out:1'' \<and> find_P line ''Dst'' = None \<and>
    findall line ''Branch'' = [b1, b2] \<and>
    find_P b1 ''Dst'' = Some d1 \<and> etext d1 = Some ''20#in:1'' \<and>
    find_P b2 ''Dst'' = Some d2 \<and> etext d2 = Some ''30#in:1'' \<longrightarrow>
    parse_connection line conns =
      conns @
      [\<lparr>source_block = ''10'', source_port = 1, dest_block = ''20'', dest_port = 1,
        signal_name = (case find_P line ''Name'' of None \<Rightarrow> None | Some n \<Rightarrow> etext n),
        branches = None\<rparr>,
       \<lparr>source_block = ''10'', source_port = 1, dest_block = ''30'', dest_port = 1,
        signal_name = (case find_P line ''Name'' of None \<Rightarrow> None | Some n \<Rightarrow> etext n),
        branches = None\<rparr>])
   \<and> (find_P line' ''Src'' = None \<longrightarrow> parse_connection line' conns = conns)
   \<and> (find_P line' ''Src'' = Some s' \<and> unparseable (etext s') \<longrightarrow>
        parse_connection line' conns = conns)
   \<and> (find_P line' ''Src'' = Some s' \<and> parse_endpoint (etext s') = Some (sid, k, p) \<and>
       find_P line' ''Dst'' = Some d' \<and> unparseable (etext d') \<longrightarrow>
        parse_connection line' conns =
          fold (branch_step sid p (case find_P line' ''Name'' of None \<Rightarrow> None | Some n \<Rightarrow> etext n))
            (findall line' ''Branch'') conns)
   \<and> (find_P b ''Dst'' = Some d \<and> unparseable (etext d) \<longrightarrow>
        branch_step sid p sg b conns = conns)
   \<and> (decimal_string bid \<longrightarrow> parse_endpoint (Some (bid @ ''#state'')) = Some (bid, ''state'', 0))
   \<and> (parse_endpoint t = None \<longleftrightarrow> unparseable t)"
proof (intro conjI impI)
  assume a: "find_P line ''Src'' = Some s \<and> etext s = Some ''10#out:1'' \<and> find_P line ''Dst'' = None \<and>
    findall line ''Branch'' = [b1, b2] \<and>
    find_P b1 ''Dst'' = Some d1 \<and> etext d1 = Some ''20#in:1'' \<and>
    find_P b2 ''Dst'' = Some d2 \<and> etext d2 = Some ''30#in:1''"
  then show "parse_connection line conns =
      conns @
      [\<lparr>source_block = ''10'', source_port = 1, dest_block = ''20'', dest_port = 1,
        signal_name = (case find_P line ''Name'' of None \<Rightarrow> None | Some n \<Rightarrow> etext n),
        branches = None\<rparr>,
       \<lparr>source_block = ''10'', source_port = 1, dest_block = ''30'', dest_port = 1,
        signal_name = (case find_P line ''Name'' of None \<Rightarrow> None | Some n \<Rightarrow> etext n),
        branches = None\<rparr>]"
    by (simp add: parse_connection_def parse_endpoint_examples branch_step_parsed Let_def)
next
  assume "find_P line' ''Src'' = None"
  then show "parse_connection line' conns = conns" by (simp add: parse_connection_def)
next
  assume "find_P line' ''Src'' = Some s' \<and> unparseable (etext s')"
  then show "parse_connection line' conns = conns"
    by (simp add: parse_connection_def parse_endpoint_None_iff[symmetric])
next
  assume "find_P line' ''Src'' = Some s' \<and> parse_endpoint (etext s') = Some (sid, k, p) \<and>
       find_P line' ''Dst'' = Some d' \<and> unparseable (etext d')"
  then show "parse_connection line' conns =
          fold (branch_step sid p (case find_P line' ''Name'' of None \<Rightarrow> None | Some n \<Rightarrow> etext n))
            (findall line' ''Branch'') conns"
    by (simp add: parse_connection_def parse_endpoint_None_iff[symmetric])
next
  assume "find_P b ''Dst'' = Some d \<and> unparseable (etext d)"
  then show "branch_step sid p sg b conns = conns" by (simp add: branch_step_unparseable)
next
  assume "decimal_string bid"
  then show "parse_endpoint (Some (bid @ ''#state'')) = Some (bid, ''state'', 0)"
    by (rule parse_endpoint_state)
next
  show "parse_endpoint t = None \<longleftrightarrow> unparseable t" by (rule parse_endpoint_None_iff)
qed

lemma unparseable_malformed: "unparseable (Some ''10:out#1'')"
  unfolding parse_endpoint_None_iff[symmetric]
  by (simp add: parse_endpoint_def is_decimal_def)

theorem line_connections_witness:
  "find_P branched_line ''Src'' = Some (P_elem ''Src'' ''10#out:1'') \<and>
   find_P branched_line ''Dst'' = None \<and> find_P branched_line ''Name'' = None \<and>
   findall branched_line ''Branch'' =
     [Element ''Branch'' [] None [P_elem ''Name'' ''inner'', P_elem ''Dst'' ''20#in:1''],
      Element ''Branch'' [] None [P_elem ''Dst'' ''30#in:1'']] \<and>
   parse_connection branched_line [] =
     [\<lparr>source_block = ''10'', source_port = 1, dest_block = ''20'', dest_port = 1,
       signal_name = None, branches = None\<rparr>,
      \<lparr>source_block = ''10'', source_port = 1, dest_block = ''30'', dest_port = 1,
       signal_name = None, branches = None\<rparr>] \<and>
   find_P malformed_line ''Src'' = Some (P_elem ''Src'' ''10:out#1'') \<and>
   unparseable (Some ''10:out#1'') \<and>
   parse_connection malformed_line [] = [] \<and>
   decimal_string ''7'' \<and> parse_endpoint (Some ''7#state'') = Some (''7'', ''state'', 0)"
proof -
  have f: "find_P branched_line ''Src'' = Some (P_elem ''Src'' ''10#out:1'')"
    "find_P branched_line ''Dst'' = None" "find_P branched_line ''Name'' = None"
    "findall branched_line ''Branch'' =
     [Element ''Branch'' [] None [P_elem ''Name'' ''inner'', P_elem ''Dst'' ''20#in:1''],
      Element ''Branch'' [] None [P_elem ''Dst'' ''30#in:1'']]"
    "find_P (Element ''Branch'' [] None [P_elem ''Name'' ''inner'', P_elem ''Dst'' ''20#in:1'']) ''Dst''
       = Some (P_elem ''Dst'' ''20#in:1'')"
    "find_P (Element ''Branch'' [] None [P_elem ''Dst'' ''30#in:1'']) ''Dst''
       = Some (P_elem ''Dst'' ''30#in:1'')"
    "find_P malformed_line ''Src'' = Some (P_elem ''Src'' ''10:out#1'')"
    by (simp_all add: find_P_def findall_def branched_line_def malformed_line_def P_elem_def
        get_attr_def dict_get_def)
  have t: "etext (P_elem ''Src'' ''10#out:1'') = Some ''10#out:1''"
    "etext (P_elem ''Dst'' ''20#in:1'') = Some ''20#in:1''"
    "etext (P_elem ''Dst'' ''30#in:1'') = Some ''30#in:1''"
    "etext (P_elem ''Src'' ''10:out#1'') = Some ''10:out#1''"
    by (simp_all add: P_elem_def)
  have d: "decimal_string ''7''" by (simp add: decimal_string_def is_decimal_def)
  from line_connections[where line = branched_line and s = "P_elem ''Src'' ''10#out:1''"
      and ?b1.0 = "Element ''Branch'' [] None [P_elem ''Name'' ''inner'', P_elem ''Dst'' ''20#in:1'']"
      and ?b2.0 = "Element ''Branch'' [] None [P_elem ''Dst'' ''30#in:1'']"
      and ?d1.0 = "P_elem ''Dst'' ''20#in:1''" and ?d2.0 = "P_elem ''Dst'' ''30#in:1''"
      and conns = "[]" and line' = malformed_line and s' = "P_elem ''Src'' ''10:out#1''"
      and bid = "''7''"]
    f t d unparseable_malformed
  show ?thesis by simp
qed

text \<open>
  Claim C7 as stated fails: the endpoint \<open>10#out:1junk\<close> is none of the three shapes, and
  the line is not skipped.
\<close>

theorem trailing_text_counterexample:
  "parse_endpoint (Some ''10#out:1junk'') = Some (''10'', ''out'', 1)
   \<and> parse_connection trailing_text_line [] =
       [\<lparr>source_block = ''10'', source_port = 1, dest_block = ''20'', dest_port = 1,
         signal_name = None, branches = None\<rparr>]"
  by (simp add: parse_connection_def parse_endpoint_def trailing_text_line_def P_elem_def
      find_P_def findall_def get_attr_def dict_get_def is_decimal_def int_of_decimal_def)

section \<open>Proofs: the generated-code mapper\<close>

lemma distinct_keys_dict_set: "distinct (keys d) \<Longrightarrow> distinct (keys (dict_set k v d))"
  by (induction d) (auto simp: keys_def dest!: subsetD[OF set_dict_set])

lemma dict_get_group_step:
  "dict_get (group_step m acc) k =
     (if k = (file_path m, block_path m)
      then Some ((case dict_get acc k of None \<Rightarrow> [] | Some rs \<Rightarrow> rs) @ [(line_number m, code_line m)])
      else dict_get acc k)"
  by (simp add: group_step_def Let_def dict_get_set)

lemma dict_get_fold_group:
  "dict_get (fold group_step ms acc) k =
     (case dict_get acc k of
        None \<Rightarrow> if refs_of k ms = [] then None else Some (refs_of k ms)
      | Some rs \<Rightarrow> Some (rs @ refs_of k ms))"
proof (induction ms arbitrary: acc)
  case Nil
  show ?case by (simp add: refs_of_def split: option.splits)
next
  case (Cons m ms)
  show ?case
    unfolding fold_Cons comp_apply Cons.IH dict_get_group_step
    by (simp add: refs_of_def split: option.splits)
qed

lemma distinct_fold_group:
  "distinct (keys acc) \<Longrightarrow> distinct (keys (fold group_step ms acc))"
  by (induction ms arbitrary: acc) (simp_all add: group_step_def Let_def distinct_keys_dict_set)

lemma filter_key_single:
  "distinct (keys d) \<Longrightarrow> dict_get d k = Some v \<Longrightarrow> filter (\<lambda>kv. fst kv = k) d = [(k, v)]"
proof (induction d)
  case Nil
  then show ?case by (simp add: dict_get_def)
next
  case (Cons kv d)
  show ?case
  proof (cases "fst kv = k")
    case True
    with Cons.prems have "kv = (k, v)" and "k \<notin> fst ` set d"
      by (auto simp: dict_get_def keys_def)
    then have "filter (\<lambda>kv. fst kv = k) d = []" by (auto simp: filter_empty_conv)
    with \<open>kv = (k, v)\<close> show ?thesis by simp
  next
    case False
    with Cons show ?thesis by (simp add: dict_get_def keys_def)
  qed
qed

lemma entries_for_export:
  "entries_for fp bp (export_to_json a) =
     map entry_of_group (filter (\<lambda>kv. fst kv = (fp, bp)) (fold group_step (code_mappings a) []))"
proof -
  have f: "filter (\<lambda>x. fst (fst x) = fp \<and> snd (fst x) = bp) xs = filter (\<lambda>kv. fst kv = (fp, bp)) xs"
    for xs :: "((string \<times> string) \<times> (nat \<times> string) list) list"
    by (rule filter_cong) (auto simp: prod_eq_iff)
  show ?thesis
    by (simp add: entries_for_def export_to_json_def filter_map comp_def entry_of_group_def
        case_prod_beta f)
qed

lemma entries_for_single:
  assumes "m \<in> set (code_mappings a)" "file_path m = fp" "block_path m = bp"
  shows "entries_for fp bp (export_to_json a) =
     [\<lparr>e_file_path = fp, e_block_path = bp, e_block_name = last_segment bp,
       e_location = fp @ '':'' @ bp, code_references = refs_of (fp, bp) (code_mappings a)\<rparr>]"
proof -
  have ne: "refs_of (fp, bp) (code_mappings a) \<noteq> []"
    using assms by (auto simp: refs_of_def filter_empty_conv)
  have get: "dict_get (fold group_step (code_mappings a) []) (fp, bp)
      = Some (refs_of (fp, bp) (code_mappings a))"
    using ne by (simp add: dict_get_fold_group) (simp add: dict_get_def)
  have dist: "distinct (keys (fold group_step (code_mappings a) []))"
    by (rule distinct_fold_group) (simp add: keys_def)
  show ?thesis
    unfolding entries_for_export filter_key_single[OF dist get]
    by (simp add: entry_of_group_def)
qed

lemma fold_parse_c_file:
  "fold (\<lambda>(fp, content). parse_c_file fp content) cfiles acc =
     acc @ concat (map (\<lambda>(fp, content).
        concat (map (line_mappings fp) (enumerate1 (split_lines content)))) cfiles)"
  by (induction cfiles arbitrary: acc) (auto simp: parse_c_file_def)

lemma enumerate1_nth: "i < length xs \<Longrightarrow> (Suc i, xs ! i) \<in> set (enumerate1 xs)"
  unfolding enumerate1_def in_set_zip
  by (rule exI[of _ i]) (simp add: nth_upt del: upt_Suc)

lemma mapping_recorded:
  assumes "(fp, content) \<in> set (c_files a)" "i < length (split_lines content)"
    and "(p, n) \<in> set (findall_block_refs (split_lines content ! i))"
  shows "\<lparr>file_path = fp, line_number = Suc i, block_path = ''<'' @ p @ ''>/'' @ n,
          block_name = n, code_line = strip (split_lines content ! i)\<rparr>
         \<in> set (code_mappings (analyze_code_mappings a))"
proof -
  let ?m = "\<lparr>file_path = fp, line_number = Suc i, block_path = ''<'' @ p @ ''>/'' @ n,
          block_name = n, code_line = strip (split_lines content ! i)\<rparr>"
  have "?m \<in> set (line_mappings fp (Suc i, split_lines content ! i))"
    using assms(3) by (force simp: line_mappings_def)
  with enumerate1_nth[OF assms(2)]
  have "?m \<in> set (concat (map (line_mappings fp) (enumerate1 (split_lines content))))"
    by auto
  with assms(1) show ?thesis
    unfolding analyze_code_mappings_def fold_parse_c_file by force
qed

lemma last_segment_name:
  "CHR ''/'' \<notin> set n \<Longrightarrow> last_segment (''<'' @ p @ ''>/'' @ n) = n"
proof -
  assume n: "CHR ''/'' \<notin> set n"
  have "takeWhile (\<lambda>c. c \<noteq> CHR ''/'') (rev n @ CHR ''/'' # CHR ''>'' # rev p @ ''<'') = rev n"
    using n by (subst takeWhile_append2) auto
  then show ?thesis by (simp add: last_segment_def)
qed

lemma match_block_ref_no_start:
  "\<not> (c = CHR 0x27 \<and> hd cs = CHR ''<'') \<Longrightarrow> cs \<noteq> [] \<Longrightarrow> match_block_ref (c # cs) = None"
  by (cases cs) (auto simp: match_block_ref_def)

lemma findall_skip:
  "no_ref_start pre \<Longrightarrow> findall_block_refs (pre @ CHR 0x27 # s) = findall_block_refs (CHR 0x27 # s)"
proof (induction pre)
  case Nil
  show ?case by simp
next
  case (Cons a cs)
  have rest: "no_ref_start cs"
    using Cons.prems by (cases cs) simp_all
  have "match_block_ref (a # cs @ CHR 0x27 # s) = None"
    using Cons.prems match_block_ref_no_start[of a "cs @ CHR 0x27 # s"]
    by (cases cs) simp_all
  with Cons.IH[OF rest] show ?case by simp
qed

lemma match_block_ref_token:
  assumes "p \<noteq> []" "CHR ''>'' \<notin> set p" "n \<noteq> []" "CHR 0x27 \<notin> set n"
  shows "match_block_ref (quote @ ''<'' @ p @ ''>/'' @ n @ quote @ post) = Some ((p, n), post)"
proof -
  have t1: "takeWhile (\<lambda>c. c \<noteq> CHR ''>'') (p @ CHR ''>'' # CHR ''/'' # n @ CHR 0x27 # post) = p"
    using assms(2) by (subst takeWhile_append2) auto
  have d1: "dropWhile (\<lambda>c. c \<noteq> CHR ''>'') (p @ CHR ''>'' # CHR ''/'' # n @ CHR 0x27 # post)
              = CHR ''>'' # CHR ''/'' # n @ CHR 0x27 # post"
    using assms(2) by (subst dropWhile_append2) auto
  have t2: "takeWhile (\<lambda>c. c \<noteq> CHR 0x27) (n @ CHR 0x27 # post) = n"
    using assms(4) by (subst takeWhile_append2) auto
  have d2: "dropWhile (\<lambda>c. c \<noteq> CHR 0x27) (n @ CHR 0x27 # post) = CHR 0x27 # post"
    using assms(4) by (subst dropWhile_append2) auto
  show ?thesis
    using assms(1,3) by (simp add: match_block_ref_def quote_def t1 d1 t2 d2)
qed

lemma findall_token:
  assumes "no_ref_start pre" "p \<noteq> []" "CHR ''>'' \<notin> set p" "n \<noteq> []" "CHR 0x27 \<notin> set n"
  shows "findall_block_refs (pre @ quote @ ''<'' @ p @ ''>/'' @ n @ quote @ post)
           = (p, n) # findall_block_refs post"
proof -
  have "findall_block_refs (pre @ quote @ ''<'' @ p @ ''>/'' @ n @ quote @ post)
          = findall_block_refs (quote @ ''<'' @ p @ ''>/'' @ n @ quote @ post)"
    using findall_skip[OF assms(1), of "''<'' @ p @ ''>/'' @ n @ quote @ post"]
    by (simp add: quote_def)
  also have "\<dots> = (p, n) # findall_block_refs post"
    using match_block_ref_token[OF assms(2-5), of post]
    by (simp add: quote_def)
  finally show ?thesis .
qed

text \<open>
  Claim C8, as amended. Line \<open>i + 1\<close> of a file of the archive holds the comment token of a
  block path: a quote, \<open><\<close>, the path, \<open>>/\<close>, the name and a quote, and before the token the
  line holds no quote that is followed at once by \<open><\<close>. Then the exported document has
  exactly one entry for that file and block path. Its code references are the occurrences
  of all the mappings of that file and block path, in order, among them the line number
  \<open>i + 1\<close> with the text of the line stripped of leading and trailing whitespace. Its
  block name is the last segment of the block path, which is the name of the token when
  the name holds no slash.
\<close>

theorem code_mapping_grouped:
  assumes "(fp, content) \<in> set (c_files a)" and "i < length (split_lines content)"
    and "split_lines content ! i = pre @ quote @ ''<'' @ p @ ''>/'' @ n @ quote @ post"
    and "no_ref_start pre"
    and "p \<noteq> []" and "CHR ''>'' \<notin> set p" and "n \<noteq> []" and "CHR 0x27 \<notin> set n"
  shows "(let doc = export_to_json (analyze_code_mappings a); bp = ''<'' @ p @ ''>/'' @ n in
     entries_for fp bp doc =
       [\<lparr>e_file_path = fp, e_block_path = bp, e_block_name = last_segment bp,
         e_location = fp @ '':'' @ bp,
         code_references = refs_of (fp, bp) (code_mappings (analyze_code_mappings a))\<rparr>]
     \<and> (Suc i, strip (split_lines content ! i))
         \<in> set (refs_of (fp, bp) (code_mappings (analyze_code_mappings a)))
     \<and> (CHR ''/'' \<notin> set n \<longrightarrow> last_segment bp = n))"
proof -
  let ?m = "\<lparr>file_path = fp, line_number = Suc i, block_path = ''<'' @ p @ ''>/'' @ n,
          block_name = n, code_line = strip (split_lines content ! i)\<rparr>"
  have found: "(p, n) \<in> set (findall_block_refs (split_lines content ! i))"
    unfolding assms(3) findall_token[OF assms(4-8)] by simp
  have m: "?m \<in> set (code_mappings (analyze_code_mappings a))"
    using assms(1,2) found by (rule mapping_recorded)
  have r: "(Suc i, strip (split_lines content ! i))
     \<in> set (refs_of (fp, ''<'' @ p @ ''>/'' @ n) (code_mappings (analyze_code_mappings a)))"
    unfolding refs_of_def using m by force
  from entries_for_single[OF m, of fp "''<'' @ p @ ''>/'' @ n"] r last_segment_name[of n p]
  show ?thesis by (simp add: Let_def)
qed

lemma foo_c_lines:
  "41 < length (split_lines foo_c)"
  "split_lines foo_c ! 41 = ''  '' @ gain_line"
  by code_simp+

lemma foo_c_token:
  "split_lines foo_c ! 41 =
     ''  y = K * u; /* Gain: '' @ quote @ ''<'' @ ''S1'' @ ''>/'' @ ''K'' @ quote @ '' */''"
  "no_ref_start ''  y = K * u; /* Gain: ''"
  by (simp_all add: foo_c_lines gain_line_def)

lemma foo_c_mappings:
  "code_mappings (analyze_code_mappings example_slxc) =
     [\<lparr>file_path = ''foo.c'', line_number = 42, block_path = ''<S1>/K'', block_name = ''K'',
       code_line = gain_line\<rparr>,
      \<lparr>file_path = ''foo.c'', line_number = 43, block_path = ''<S1>/K'', block_name = ''K'',
       code_line = gain_line\<rparr>]"
  by code_simp

theorem code_mapping_grouped_witness:
  "(''foo.c'', foo_c) \<in> set (c_files example_slxc) \<and> 41 < length (split_lines foo_c) \<and>
   split_lines foo_c ! 41 =
     ''  y = K * u; /* Gain: '' @ quote @ ''<'' @ ''S1'' @ ''>/'' @ ''K'' @ quote @ '' */'' \<and>
   no_ref_start ''  y = K * u; /* Gain: '' \<and>
   entries_for ''foo.c'' ''<S1>/K'' (export_to_json (analyze_code_mappings example_slxc)) =
     [\<lparr>e_file_path = ''foo.c'', e_block_path = ''<S1>/K'', e_block_name = ''K'',
       e_location = ''foo.c:<S1>/K'',
       code_references = [(42, gain_line), (43, gain_line)]\<rparr>] \<and>
   (42, strip (split_lines foo_c ! 41)) \<in> set [(42, gain_line), (43, gain_line)]"
proof -
  have h1: "(''foo.c'', foo_c) \<in> set (c_files example_slxc)"
    by (simp add: example_slxc_def)
  have r: "refs_of (''foo.c'', ''<S1>/K'') (code_mappings (analyze_code_mappings example_slxc))
      = [(42, gain_line), (43, gain_line)]"
    by (simp add: foo_c_mappings refs_of_def)
  from code_mapping_grouped[OF h1 foo_c_lines(1) foo_c_token(1) foo_c_token(2)]
    h1 foo_c_lines(1) foo_c_token
  show ?thesis
    by (simp add: Let_def last_segment_def r)
qed

text \<open>
  Claim C8 as stated fails twice. Line 42 of \<open>foo.c\<close> starts with two spaces and the code
  recorded for it does not, so the code is not the verbatim text of the line. And line 42
  of the second file contains the comment token after a character literal of \<open><\<close>: the
  match starts at the literal, the line is recorded under another block path, and the
  document has no entry for \<open>foo.c\<close> and \<open><S1>/K\<close>.
\<close>

theorem stripped_code_line_counterexample:
  "split_lines foo_c ! 41 = ''  '' @ gain_line
   \<and> map code_references
       (entries_for ''foo.c'' ''<S1>/K'' (export_to_json (analyze_code_mappings example_slxc)))
     = [[(42, gain_line), (43, gain_line)]]
   \<and> gain_line \<noteq> ''  '' @ gain_line
   \<and> split_lines literal_c ! 41 = literal_line
   \<and> entries_for ''foo.c'' ''<S1>/K'' (export_to_json (analyze_code_mappings literal_slxc)) = []
   \<and> map e_block_path (mappings (export_to_json (analyze_code_mappings literal_slxc)))
     = [''<'' @ quote @ '') y = 0; /* Gain: '' @ quote @ ''<S1>/K'']"
  by code_simp

section \<open>Proofs: the batch merge\<close>

lemma dict_get_merge_nodes_absent:
  "k \<notin> set (keys ns) \<Longrightarrow> dict_get (fold (merge_node stem) ns acc) k = dict_get acc k"
  by (induction ns arbitrary: acc) (auto simp: merge_node_def dict_get_set keys_def)

lemma dict_get_merge_nodes:
  "distinct (keys ns) \<Longrightarrow> dict_get ns k = Some n \<Longrightarrow>
   dict_get (fold (merge_node stem) ns acc) k = Some (n\<lparr>source_file := Some stem\<rparr>)"
proof (induction ns arbitrary: acc)
  case Nil
  then show ?case by (simp add: dict_get_def)
next
  case (Cons x xs)
  show ?case
  proof (cases "fst x = k")
    case True
    with Cons.prems have n: "snd x = n" and absent: "k \<notin> set (keys xs)"
      by (auto simp: dict_get_def keys_def)
    have "dict_get (fold (merge_node stem) xs (merge_node stem x acc)) k
        = dict_get (merge_node stem x acc) k"
      by (rule dict_get_merge_nodes_absent[OF absent])
    also have "\<dots> = Some (n\<lparr>source_file := Some stem\<rparr>)"
      using True n by (simp add: merge_node_def dict_get_set)
    finally show ?thesis by simp
  next
    case False
    with Cons.prems have "distinct (keys xs)" "dict_get xs k = Some n"
      by (auto simp: dict_get_def keys_def)
    from Cons.IH[OF this] show ?thesis by simp
  qed
qed

lemma dict_get_merge_file_lacks:
  "lacks fs k item \<Longrightarrow> dict_get (merge_file fs item acc) k = dict_get acc k"
  by (auto simp: lacks_def merge_file_def dict_get_merge_nodes_absent split: option.splits)

lemma dict_get_fold_merge_lacks:
  "\<forall>item \<in> set items. lacks fs k item \<Longrightarrow>
   dict_get (fold (merge_file fs) items acc) k = dict_get acc k"
  by (induction items arbitrary: acc) (simp_all add: dict_get_merge_file_lacks)

lemma last_write_wins:
  assumes "fs (output_file res) = Some ns" "distinct (keys ns)" "dict_get ns k = Some n"
    and "\<forall>item \<in> set later. lacks fs k item"
  shows "dict_get (fold (merge_file fs) (earlier @ (stem, res) # later) acc) k
           = Some (n\<lparr>source_file := Some stem\<rparr>)"
proof -
  have "dict_get (merge_file fs (stem, res) acc') k = Some (n\<lparr>source_file := Some stem\<rparr>)" for acc'
    using assms(1-3) by (simp add: merge_file_def dict_get_merge_nodes)
  then show ?thesis
    by (simp add: dict_get_fold_merge_lacks[OF assms(4)])
qed

lemma process_file_forget:
  "fst (process_file (stem, forget_nodes oc) (p, d')) = fst (process_file (stem, oc) (p, d))"
  by (cases oc) (simp_all add: process_file_def Let_def)

lemma fold_process_file_forget:
  "fst (fold process_file (map (\<lambda>input. (fst input, forget_nodes (snd input))) inputs) (p, d'))
     = fst (fold process_file inputs (p, d))"
proof (induction inputs arbitrary: p d d')
  case Nil
  show ?case by simp
next
  case (Cons x xs)
  obtain p1 d1 where 1: "process_file x (p, d) = (p1, d1)" by (cases "process_file x (p, d)")
  obtain p2 d2 where 2: "process_file (fst x, forget_nodes (snd x)) (p, d') = (p2, d2)"
    by (cases "process_file (fst x, forget_nodes (snd x)) (p, d')")
  have "p2 = p1" using process_file_forget[of "fst x" "snd x" p d' d] 1 2 by simp
  with Cons.IH[of p1 d2 d1] 1 2 show ?case by simp
qed

lemma summary_forget:
  "summary (fst (process_all_files (map (\<lambda>input. (fst input, forget_nodes (snd input))) inputs) (p, d)))
     = summary (fst (process_all_files inputs (p, d)))"
  "summary_file (snd (process_all_files (map (\<lambda>input. (fst input, forget_nodes (snd input))) inputs) (p, d)))
     = summary_file (snd (process_all_files inputs (p, d)))"
  using fold_process_file_forget[of inputs "p\<lparr>summary := (summary p)\<lparr>total_files := length inputs\<rparr>\<rparr>" d d]
  by (simp_all add: process_all_files_def Let_def case_prod_beta)


text \<open>
  Claim C5, as amended. In the merge, a node id found in the file of a results entry, and
  in no file of a later entry, ends up with the content it has in that file, whatever
  earlier files held for it, and with that file as its source. The merge writes the merged
  document and leaves the processor, its summary and the summary document as they were.
  The summary made by the batch run is the same when the nodes of every file are left out:
  it depends on the names, the counts and the errors of the files alone, not on the ids or
  the content of their nodes.
\<close>

theorem merge_last_write_wins:
  assumes "results p = earlier @ (stem, res) # later"
    and "graph_files d (output_file res) = Some ns" and "distinct (keys ns)"
    and "dict_get ns k = Some n"
    and "\<forall>item \<in> set later. lacks (graph_files d) k item"
  shows "(case merge_all_requirements p d of
            (p', d', merged) \<Rightarrow>
               dict_get merged k = Some (n\<lparr>source_file := Some stem\<rparr>)
             \<and> p' = p \<and> summary p' = summary p \<and> summary_file d' = summary_file d
             \<and> graph_files d' (output_dir p @ ''/all_requirements.json'') = Some merged)
       \<and> summary (fst (process_all_files
             (map (\<lambda>input. (fst input, forget_nodes (snd input))) inputs) (p0, d0)))
           = summary (fst (process_all_files inputs (p0, d0)))
       \<and> summary_file (snd (process_all_files
             (map (\<lambda>input. (fst input, forget_nodes (snd input))) inputs) (p0, d0)))
           = summary_file (snd (process_all_files inputs (p0, d0)))"
  using last_write_wins[OF assms(2-5), of earlier stem "[]"] assms(1) summary_forget[of inputs p0 d0]
  by (simp add: merge_all_requirements_def Let_def)

lemma colliding_state:
  "results (fst (after_batch colliding_batch)) =
     [(''a'', \<lparr>requirement_count = 1, element_count = 5, output_file = ''out/a_requirements.json''\<rparr>)]
     @ (''b'', \<lparr>requirement_count = 1, element_count = 5, output_file = ''out/b_requirements.json''\<rparr>)
     # []"
  "graph_files (snd (after_batch colliding_batch)) ''out/b_requirements.json''
     = Some [(''R1'', node_named ''second'')]"
  by (simp_all add: after_batch_def colliding_batch_def process_all_files_def process_file_def
      new_processor_def empty_disk_def Let_def)

theorem merge_last_write_wins_witness:
  "distinct (keys [(''R1'', node_named ''second'')]) \<and>
   dict_get [(''R1'', node_named ''second'')] ''R1'' = Some (node_named ''second'') \<and>
   dict_get (snd (snd (after_merge colliding_batch))) ''R1''
     = Some ((node_named ''second'')\<lparr>source_file := Some ''b''\<rparr>) \<and>
   summary (fst (after_merge colliding_batch)) = summary (fst (after_batch colliding_batch))"
proof -
  have h3: "distinct (keys [(''R1'', node_named ''second'')])" by (simp add: keys_def)
  have h4: "dict_get [(''R1'', node_named ''second'')] ''R1'' = Some (node_named ''second'')"
    by (simp add: dict_get_def)
  have h5: "\<forall>item \<in> set []. lacks (graph_files (snd (after_batch colliding_batch))) ''R1'' item"
    by simp
  from merge_last_write_wins[OF colliding_state(1) _ h3 h4 h5, of "[]"] colliding_state(2) h3 h4
  show ?thesis
    by (simp add: after_merge_def case_prod_beta)
qed

text \<open>
  Claim C5 as stated fails: both files of the batch export the node R1 with different
  content, the merge keeps the content of the later file, and the summary, in the
  processor and on disk, holds the counts and the two file entries only; it is the summary
  of the batch whose files share no node id.
\<close>

theorem collision_not_recorded_counterexample:
  "dict_get (snd (snd (after_merge colliding_batch))) ''R1''
     = Some ((node_named ''second'')\<lparr>source_file := Some ''b''\<rparr>)
   \<and> summary (fst (after_merge colliding_batch)) =
       \<lparr>total_files = 2, successful = 2, failed = 0, total_requirements = 2,
        files =
          [\<lparr>fi_filename = ''a.mdzip'', fi_status = ''success'', fi_requirements = Some 1,
            fi_output_file = Some ''out/a_requirements.json'', fi_error = None\<rparr>,
           \<lparr>fi_filename = ''b.mdzip'', fi_status = ''success'', fi_requirements = Some 1,
            fi_output_file = Some ''out/b_requirements.json'', fi_error = None\<rparr>]\<rparr>
   \<and> summary_file (fst (snd (after_merge colliding_batch)))
       = Some (summary (fst (after_merge colliding_batch)))
   \<and> summary (fst (after_merge colliding_batch)) = summary (fst (after_merge disjoint_batch))"
  by (simp add: after_merge_def after_batch_def colliding_batch_def disjoint_batch_def
      process_all_files_def process_file_def merge_all_requirements_def merge_file_def
      merge_node_def new_processor_def empty_disk_def node_named_def dict_get_def Let_def)

end
